theory Spec2Isabelle
  imports Main "HOL-Library.Word" "HOL-Library.AList"
begin

unbundle bit_operations_syntax

section \<open>Machine types\<close>

text \<open>
  GLib's \<^verbatim>\<open>gint\<close> is a 32-bit signed integer, \<^verbatim>\<open>guint\<close> a 32-bit unsigned one and
  \<^verbatim>\<open>gushort\<close> a 16-bit unsigned one. They are words here; where the C code compares two
  \<^verbatim>\<open>gint\<close>s the comparison is made on \<open>sint\<close>.
\<close>

type_synonym gint = "32 word"
type_synonym guint = "32 word"
type_synonym gushort = "16 word"
type_synonym uint32_t = "32 word"

text \<open>
  \<^verbatim>\<open>GPollFD\<close> (declared in \<^verbatim>\<open>gpoll.h\<close>): a descriptor, the events asked for and the
  events observed. The fields carry the prefix \<open>pollfd_\<close> here.
\<close>

record GPollFD =
  pollfd_fd :: gint
  pollfd_events :: gushort
  pollfd_revents :: gushort

text \<open>The values of \<^verbatim>\<open>errno\<close> the code looks at, as Linux numbers them.\<close>

type_synonym errno = int

definition EPERM :: errno where
  "EPERM = 1"

definition ENOENT :: errno where
  "ENOENT = 2"

definition EINTR :: errno where
  "EINTR = 4"

definition EBADF :: errno where
  "EBADF = 9"

section \<open>Translation between GIOCondition and epoll event masks\<close>

text \<open>
  \<^verbatim>\<open>gmain-epoll.c\<close>, \<^verbatim>\<open>g_io_condition_from_epoll_events\<close> and
  \<^verbatim>\<open>g_io_condition_to_epoll_events\<close> (identical in the three revisions of the file).

  The values of the \<^verbatim>\<open>G_IO_*\<close> and \<^verbatim>\<open>EPOLL*\<close> constants come from headers that are not
  part of the sources (\<^verbatim>\<open>giochannel.h\<close>/\<^verbatim>\<open>gpoll.h\<close>, \<^verbatim>\<open>sys/epoll.h\<close>), so they are a
  parameter of the model. Each \<^verbatim>\<open>#if G_IO_X == EPOLLX\<close> of the source is a test on that
  parameter.
\<close>

record io_consts =
  G_IO_IN :: gushort
  G_IO_OUT :: gushort
  G_IO_PRI :: gushort
  G_IO_ERR :: gushort
  G_IO_HUP :: gushort
  EPOLLIN :: uint32_t
  EPOLLOUT :: uint32_t
  EPOLLPRI :: uint32_t
  EPOLLERR :: uint32_t
  EPOLLHUP :: uint32_t

text \<open>The constants as Linux defines them (\<^verbatim>\<open>poll.h\<close> and \<^verbatim>\<open>sys/epoll.h\<close>).\<close>

definition linux_consts :: io_consts where
  "linux_consts =
     \<lparr>G_IO_IN = 1, G_IO_OUT = 4, G_IO_PRI = 2, G_IO_ERR = 8, G_IO_HUP = 16,
      EPOLLIN = 1, EPOLLOUT = 4, EPOLLPRI = 2, EPOLLERR = 8, EPOLLHUP = 16\<rparr>"

text \<open>\<^verbatim>\<open>G_IO_X == EPOLLX\<close>: the two constants have the same value.\<close>

definition same_value :: "gushort \<Rightarrow> uint32_t \<Rightarrow> bool" where
  "same_value g e = (ucast g = e)"

text \<open>
  One \<^verbatim>\<open>#if G_IO_X == EPOLLX  |G_IO_X  #endif\<close> term of the mask that filters the bits
  common to both representations: the flag when the values agree, nothing otherwise.
\<close>

definition common_flag :: "gushort \<Rightarrow> uint32_t \<Rightarrow> uint32_t" where
  "common_flag g e = (if same_value g e then e else 0)"

text \<open>
  One \<^verbatim>\<open>#if G_IO_X != EPOLLX  if ((epoll_events & EPOLLX) != 0) io_cond |= G_IO_X;  #endif\<close>
  block.
\<close>

definition from_epoll_flag :: "gushort \<Rightarrow> uint32_t \<Rightarrow> uint32_t \<Rightarrow> gushort \<Rightarrow> gushort" where
  "from_epoll_flag g e epoll_events io_cond =
     (if \<not> same_value g e \<and> epoll_events AND e \<noteq> 0 then io_cond OR g else io_cond)"

definition g_io_condition_from_epoll_events :: "io_consts \<Rightarrow> uint32_t \<Rightarrow> gushort" where
  "g_io_condition_from_epoll_events c epoll_events =
     from_epoll_flag (G_IO_HUP c) (EPOLLHUP c) epoll_events
      (from_epoll_flag (G_IO_ERR c) (EPOLLERR c) epoll_events
        (from_epoll_flag (G_IO_PRI c) (EPOLLPRI c) epoll_events
          (from_epoll_flag (G_IO_OUT c) (EPOLLOUT c) epoll_events
            (from_epoll_flag (G_IO_IN c) (EPOLLIN c) epoll_events
              (ucast (epoll_events AND
                 (0 OR common_flag (G_IO_IN c) (EPOLLIN c)
                    OR common_flag (G_IO_OUT c) (EPOLLOUT c)
                    OR common_flag (G_IO_PRI c) (EPOLLPRI c)
                    OR common_flag (G_IO_ERR c) (EPOLLERR c)
                    OR common_flag (G_IO_HUP c) (EPOLLHUP c))))))))"

text \<open>
  One \<^verbatim>\<open>#if G_IO_X != EPOLLX  if ((io_cond & G_IO_X) != 0) epoll_mask |= EPOLLX;  #endif\<close>
  block.
\<close>

definition to_epoll_flag :: "gushort \<Rightarrow> uint32_t \<Rightarrow> gushort \<Rightarrow> uint32_t \<Rightarrow> uint32_t" where
  "to_epoll_flag g e io_cond epoll_mask =
     (if \<not> same_value g e \<and> io_cond AND g \<noteq> 0 then epoll_mask OR e else epoll_mask)"

definition g_io_condition_to_epoll_events :: "io_consts \<Rightarrow> gushort \<Rightarrow> uint32_t" where
  "g_io_condition_to_epoll_events c io_cond =
     to_epoll_flag (G_IO_PRI c) (EPOLLPRI c) io_cond
      (to_epoll_flag (G_IO_OUT c) (EPOLLOUT c) io_cond
        (to_epoll_flag (G_IO_IN c) (EPOLLIN c) io_cond
          (ucast io_cond AND
             (0 OR common_flag (G_IO_IN c) (EPOLLIN c)
                OR common_flag (G_IO_OUT c) (EPOLLOUT c)
                OR common_flag (G_IO_PRI c) (EPOLLPRI c)))))"

text \<open>
  The constants are flags: each is a single bit, the five portable ones at distinct positions
  \<open>gs\<close> of a \<^verbatim>\<open>gushort\<close>, the five epoll ones at distinct positions \<open>es\<close> of a
  \<^verbatim>\<open>uint32_t\<close> (in the order IN, OUT, PRI, ERR, HUP).
\<close>

definition flag_positions :: "io_consts \<Rightarrow> nat list \<Rightarrow> nat list \<Rightarrow> bool" where
  "flag_positions c gs es =
     (length gs = 5 \<and> length es = 5 \<and> distinct gs \<and> distinct es \<and>
      list_all (\<lambda>n. n < 16) gs \<and> list_all (\<lambda>n. n < 32) es \<and>
      [G_IO_IN c, G_IO_OUT c, G_IO_PRI c, G_IO_ERR c, G_IO_HUP c] = map (\<lambda>n. 2 ^ n) gs \<and>
      [EPOLLIN c, EPOLLOUT c, EPOLLPRI c, EPOLLERR c, EPOLLHUP c] = map (\<lambda>n. 2 ^ n) es)"


section \<open>The reference-counted event context\<close>

text \<open>
  \<^verbatim>\<open>gevent.c\<close> exists in two revisions: \<^verbatim>\<open>src/glib/gevent.c\<close>, whose constructor is
  \<^verbatim>\<open>g_event_context_new (funcs, struct_size)\<close> and which has no default context, and
  \<^verbatim>\<open>src/unnamed/part_000\<close>, which has \<^verbatim>\<open>g_event_context_new_custom\<close>,
  \<^verbatim>\<open>g_event_context_new (void)\<close> and \<^verbatim>\<open>g_event_context_default\<close>.
  \<^verbatim>\<open>g_event_context_ref\<close> and \<^verbatim>\<open>g_event_context_unref\<close> are the same in both.

  A context is a heap object. The model keeps the live contexts in a map from addresses
  to their private blocks; \<^verbatim>\<open>g_slice_free\<close> removes the entry. A \<^verbatim>\<open>GEventContext *\<close> is an
  \<open>addr option\<close>, \<open>None\<close> being \<^verbatim>\<open>NULL\<close>. Calls that leave the file (the vtable's
  functions, the mutex, the critical warning of \<^verbatim>\<open>g_return_if_fail\<close>) are appended to a
  trace in the order the code makes them. A private block that is left allocated when its
  context block is freed is listed in \<open>leaked\<close>.
\<close>

type_synonym addr = nat

datatype event =
    MutexInit addr
  | MutexLock addr
  | MutexUnlock addr
  | MutexClear addr
  | FuncsAddPoll nat addr GPollFD
  | FuncsRemovePoll nat addr GPollFD
  | FuncsFinalize nat addr
  | Critical

text \<open>
  \<^verbatim>\<open>struct _GEventContext\<close> and \<^verbatim>\<open>struct _GEventContextPrivate\<close>: the vtable pointer
  \<open>funcs\<close> (an identifier of the table), the size of the backend's struct and the
  reference count. The mutex has no state of its own here; its calls are in the trace.
\<close>

record GEventContext =
  funcs :: nat
  struct_size :: nat
  ref_count :: gint

record world =
  contexts :: "addr \<rightharpoonup> GEventContext"
  fresh :: addr
  trace :: "event list"
  initialised :: bool
  default_event_context :: "addr option"
  leaked :: "addr list"

text \<open>What C leaves undefined: dereferencing \<^verbatim>\<open>NULL\<close> and touching a freed context.\<close>

datatype fault = NullDereference | UseAfterFree

definition log_event :: "event list \<Rightarrow> world \<Rightarrow> world" where
  "log_event es w = w\<lparr>trace := trace w @ es\<rparr>"

text \<open>
  \<^verbatim>\<open>g_event_context_new_custom\<close> (part_000, lines 116-144): both blocks are allocated, the
  count is set to 1 and the mutex is initialised. The allocator hands out the address
  \<open>fresh w\<close>.
\<close>

definition g_event_context_new_custom :: "nat \<Rightarrow> nat \<Rightarrow> world \<Rightarrow> addr option \<times> world" where
  "g_event_context_new_custom fs sz w =
     (let context = fresh w
      in (Some context,
          w\<lparr>contexts := (contexts w)(context \<mapsto> \<lparr>funcs = fs, struct_size = sz, ref_count = 1\<rparr>),
            fresh := Suc context,
            trace := trace w @ [MutexInit context]\<rparr>))"

text \<open>\<^verbatim>\<open>g_event_context_new (funcs, struct_size)\<close> of \<^verbatim>\<open>src/glib/gevent.c\<close> (lines 57-73).\<close>

definition g_event_context_new_gevent_c :: "nat \<Rightarrow> nat \<Rightarrow> world \<Rightarrow> addr option \<times> world" where
  "g_event_context_new_gevent_c fs sz w =
     (let context = fresh w
      in (Some context,
          w\<lparr>contexts := (contexts w)(context \<mapsto> \<lparr>funcs = fs, struct_size = sz, ref_count = 1\<rparr>),
            fresh := Suc context,
            trace := trace w @ [MutexInit context]\<rparr>))"

text \<open>
  \<^verbatim>\<open>g_epoll_event_context_new\<close>, from the revision of \<^verbatim>\<open>gevent-epoll.c\<close> that the sources
  have behind \<^verbatim>\<open>gevent-epoll.h\<close> (lines 98-118 of that file); part_000 calls it as
  \<^verbatim>\<open>_g_epoll_event_context_new\<close>. The context is made by the constructor of
  \<^verbatim>\<open>src/glib/gevent.c\<close> with the vtable \<open>epoll_funcs\<close> and the size \<open>epoll_size\<close> of
  \<^verbatim>\<open>GEpollContext\<close>; then \<^verbatim>\<open>epoll_create\<close> is called, and the argument \<open>epoll_ok\<close> tells
  whether it returns a descriptor. When it does not, a critical warning is logged, the
  context block is freed and \<^verbatim>\<open>NULL\<close> is returned: the private block and its mutex stay
  behind, which the world records in \<open>leaked\<close>.
\<close>

definition epoll_funcs :: nat where
  "epoll_funcs = 0"

definition epoll_size :: nat where
  "epoll_size = 32"

definition g_epoll_event_context_new :: "bool \<Rightarrow> world \<Rightarrow> addr option \<times> world" where
  "g_epoll_event_context_new epoll_ok w =
     (let (context, w1) = g_event_context_new_gevent_c epoll_funcs epoll_size w
      in if epoll_ok then (context, w1)
         else (case context of
                 None \<Rightarrow> (None, w1)
               | Some c \<Rightarrow>
                   (None,
                    w1\<lparr>contexts := (contexts w1)(c := None),
                       trace := trace w1 @ [Critical],
                       leaked := leaked w1 @ [c]\<rparr>)))"

text \<open>\<^verbatim>\<open>g_event_context_new (void)\<close> (part_000, lines 105-114), with \<^verbatim>\<open>HAVE_SYS_EPOLL_H\<close>.\<close>

definition g_event_context_new :: "bool \<Rightarrow> world \<Rightarrow> addr option \<times> world" where
  "g_event_context_new epoll_ok w = g_epoll_event_context_new epoll_ok w"

text \<open>
  \<^verbatim>\<open>g_event_context_default\<close> (part_000, lines 80-96). \<^verbatim>\<open>g_once_init_enter\<close> lets the
  caller in when \<open>initialised\<close> is still unset, and \<^verbatim>\<open>g_once_init_leave\<close> sets it.
\<close>

definition g_event_context_default :: "bool \<Rightarrow> world \<Rightarrow> addr option \<times> world" where
  "g_event_context_default epoll_ok w =
     (if \<not> initialised w
      then (let (context, w1) = g_event_context_new epoll_ok w;
                w2 = w1\<lparr>default_event_context := context\<rparr>;
                w3 = w2\<lparr>initialised := True\<rparr>
            in (default_event_context w3, w3))
      else (default_event_context w, w))"

text \<open>
  \<^verbatim>\<open>g_event_context_ref\<close> (gevent.c lines 75-84, part_000 lines 146-155). Each
  \<^verbatim>\<open>g_return_val_if_fail\<close> logs a critical warning and returns \<^verbatim>\<open>NULL\<close>.
  \<^verbatim>\<open>g_atomic_int_inc\<close> adds 1 to the 32-bit count, wrapping around.
\<close>

definition g_event_context_ref :: "addr option \<Rightarrow> world \<Rightarrow> fault + (addr option \<times> world)" where
  "g_event_context_ref context w =
     (case context of
        None \<Rightarrow> Inr (None, log_event [Critical] w)
      | Some c \<Rightarrow>
          (case contexts w c of
             None \<Rightarrow> Inl UseAfterFree
           | Some priv \<Rightarrow>
               if \<not> 0 < sint (ref_count priv) then Inr (None, log_event [Critical] w)
               else Inr (Some c,
                         w\<lparr>contexts := (contexts w)(c \<mapsto> priv\<lparr>ref_count := ref_count priv + 1\<rparr>)\<rparr>)))"

text \<open>
  \<^verbatim>\<open>g_event_context_unref\<close> (gevent.c lines 86-105, part_000 lines 157-176).
  \<^verbatim>\<open>g_atomic_int_dec_and_test\<close> subtracts 1 and tells whether the result is zero; only
  then \<^verbatim>\<open>finalize\<close> is called, the mutex cleared and both blocks freed.
\<close>

definition g_event_context_unref :: "addr option \<Rightarrow> world \<Rightarrow> fault + world" where
  "g_event_context_unref context w =
     (case context of
        None \<Rightarrow> Inr (log_event [Critical] w)
      | Some c \<Rightarrow>
          (case contexts w c of
             None \<Rightarrow> Inl UseAfterFree
           | Some priv \<Rightarrow>
               if \<not> 0 < sint (ref_count priv) then Inr (log_event [Critical] w)
               else if ref_count priv - 1 \<noteq> 0
               then Inr (w\<lparr>contexts := (contexts w)(c \<mapsto> priv\<lparr>ref_count := ref_count priv - 1\<rparr>)\<rparr>)
               else Inr (w\<lparr>contexts := (contexts w)(c := None),
                          trace := trace w @ [FuncsFinalize (funcs priv) c, MutexClear c]\<rparr>)))"

text \<open>
  \<^verbatim>\<open>_g_event_context_add_poll\<close> and \<^verbatim>\<open>_g_event_context_remove_poll\<close> of
  \<^verbatim>\<open>src/glib/gevent.c\<close> (lines 107-129): the context is dereferenced at once.
\<close>

definition g_event_context_add_poll_gevent_c ::
  "addr option \<Rightarrow> GPollFD option \<Rightarrow> world \<Rightarrow> fault + world" where
  "g_event_context_add_poll_gevent_c context pfd w =
     (case context of
        None \<Rightarrow> Inl NullDereference
      | Some c \<Rightarrow>
          (case contexts w c of
             None \<Rightarrow> Inl UseAfterFree
           | Some priv \<Rightarrow>
               if \<not> 0 < sint (ref_count priv) then Inr (log_event [Critical] w)
               else (case pfd of
                       None \<Rightarrow> Inr (log_event [Critical] w)
                     | Some p \<Rightarrow>
                         Inr (log_event
                               [MutexLock c, FuncsAddPoll (funcs priv) c p, MutexUnlock c] w))))"

definition g_event_context_remove_poll_gevent_c ::
  "addr option \<Rightarrow> GPollFD option \<Rightarrow> world \<Rightarrow> fault + world" where
  "g_event_context_remove_poll_gevent_c context pfd w =
     (case context of
        None \<Rightarrow> Inl NullDereference
      | Some c \<Rightarrow>
          (case contexts w c of
             None \<Rightarrow> Inl UseAfterFree
           | Some priv \<Rightarrow>
               if \<not> 0 < sint (ref_count priv) then Inr (log_event [Critical] w)
               else (case pfd of
                       None \<Rightarrow> Inr (log_event [Critical] w)
                     | Some p \<Rightarrow>
                         Inr (log_event
                               [MutexLock c, FuncsRemovePoll (funcs priv) c p, MutexUnlock c] w))))"

text \<open>
  \<^verbatim>\<open>_g_event_context_add_poll\<close> and \<^verbatim>\<open>_g_event_context_remove_poll\<close> of part_000
  (lines 178-206): a \<^verbatim>\<open>NULL\<close> context is first replaced by the default one, then the code
  is that of the other revision.
\<close>

definition g_event_context_add_poll ::
  "bool \<Rightarrow> addr option \<Rightarrow> GPollFD option \<Rightarrow> world \<Rightarrow> fault + world" where
  "g_event_context_add_poll epoll_ok context pfd w =
     (let (context', w') =
            (if context = None then g_event_context_default epoll_ok w else (context, w))
      in g_event_context_add_poll_gevent_c context' pfd w')"

definition g_event_context_remove_poll ::
  "bool \<Rightarrow> addr option \<Rightarrow> GPollFD option \<Rightarrow> world \<Rightarrow> fault + world" where
  "g_event_context_remove_poll epoll_ok context pfd w =
     (let (context', w') =
            (if context = None then g_event_context_default epoll_ok w else (context, w))
      in g_event_context_remove_poll_gevent_c context' pfd w')"

text \<open>
  A caller holding the handle \<open>c\<close> makes a sequence of \<^verbatim>\<open>g_event_context_ref\<close> and
  \<^verbatim>\<open>g_event_context_unref\<close> calls on it; a fault ends the run.
\<close>

datatype ref_call = Ref | Unref

fun ref_calls :: "addr \<Rightarrow> ref_call list \<Rightarrow> world \<Rightarrow> fault + world" where
  "ref_calls c [] w = Inr w"
| "ref_calls c (Ref # calls) w =
     (case g_event_context_ref (Some c) w of
        Inl f \<Rightarrow> Inl f
      | Inr (_, w') \<Rightarrow> ref_calls c calls w')"
| "ref_calls c (Unref # calls) w =
     (case g_event_context_unref (Some c) w of
        Inl f \<Rightarrow> Inl f
      | Inr w' \<Rightarrow> ref_calls c calls w')"

text \<open>How often the vtable's \<^verbatim>\<open>finalize\<close> was called on the context \<open>c\<close>.\<close>

definition finalize_calls :: "addr \<Rightarrow> world \<Rightarrow> nat" where
  "finalize_calls c w = length (filter (\<lambda>e. case e of FuncsFinalize _ c' \<Rightarrow> c' = c | _ \<Rightarrow> False) (trace w))"

text \<open>The world before anything was created.\<close>

definition initial_world :: world where
  "initial_world =
     \<lparr>contexts = Map.empty, fresh = 0, trace = [], initialised = False,
      default_event_context = None, leaked = []\<rparr>"

text \<open>The world in which the count of the live context \<open>c\<close> has been set to \<open>v\<close>.\<close>

definition set_ref_count :: "addr \<Rightarrow> gint \<Rightarrow> world \<Rightarrow> world" where
  "set_ref_count c v w =
     w\<lparr>contexts := (contexts w)(c := map_option (\<lambda>priv. priv\<lparr>ref_count := v\<rparr>) (contexts w c))\<rparr>"

text \<open>The world after the context \<open>c\<close> with vtable \<open>fs\<close> was finalized and freed.\<close>

definition finalized :: "nat \<Rightarrow> addr \<Rightarrow> world \<Rightarrow> world" where
  "finalized fs c w =
     w\<lparr>contexts := (contexts w)(c := None), trace := trace w @ [FuncsFinalize fs c, MutexClear c]\<rparr>"

section \<open>The poll-record store of the portable backend\<close>

text \<open>
  \<^verbatim>\<open>gmain-poll.c\<close> exists in two revisions: \<^verbatim>\<open>src/glib/gmain-poll.c\<close>
  (\<^verbatim>\<open>GBaselinePollerData\<close>, functions \<^verbatim>\<open>g_baseline_poller_*\<close>, no mutex, no reference to
  the main context) and \<^verbatim>\<open>src/unnamed/part_001\<close> (\<^verbatim>\<open>GPollLoopBackend\<close>, functions
  \<^verbatim>\<open>g_poll_context_*\<close>, with a mutex, the \<^verbatim>\<open>poll_changed\<close> flag and a wake-up of the main
  context). The list code is the same in both.

  \<^verbatim>\<open>struct _GPollRec\<close> is a cell of an intrusive doubly-linked list. The cells live in a
  heap of their own, a map from addresses to cells; a \<^verbatim>\<open>GPollRec *\<close> is an \<open>addr option\<close>.
  \<^verbatim>\<open>g_slice_new\<close> hands out the address \<open>slice_next\<close>, which no cell has had before.
\<close>

record GPollRec =
  rec_prev :: "addr option"
  rec_next :: "addr option"
  rec_fd :: gint
  rec_priority :: gint
  rec_events :: gushort

type_synonym rec_heap = "addr \<rightharpoonup> GPollRec"

text \<open>The fields both backend structs have in common, and the allocator.\<close>

record poll_store =
  recs :: rec_heap
  slice_next :: addr
  poll_records :: "addr option"
  poll_records_tail :: "addr option"
  n_poll_records :: guint

text \<open>
  The polling function \<^verbatim>\<open>GPollFunc\<close> is given the array, the number of entries and the
  timeout; it returns its result, leaves a value in \<^verbatim>\<open>errno\<close> and may have written to the
  array.
\<close>

type_synonym GPollFunc = "GPollFD list \<Rightarrow> int \<Rightarrow> int \<Rightarrow> int \<times> errno \<times> GPollFD list"

text \<open>\<^verbatim>\<open>struct _GBaselinePollerData\<close> (gmain-poll.c, lines 49-56).\<close>

record GBaselinePollerData = poll_store +
  cached_poll_array :: "GPollFD list option"
  cached_poll_array_size :: guint
  poll_func :: GPollFunc

text \<open>\<^verbatim>\<open>struct _GPollLoopBackend\<close> (part_001, lines 50-65).\<close>

record GPollLoopBackend = poll_store +
  main_context :: addr
  loop_cached_poll_array :: "GPollFD list option"
  loop_cached_poll_array_size :: guint
  poll_changed :: bool
  loop_poll_func :: GPollFunc

text \<open>The calls a backend makes that leave its file, in the order it makes them.\<close>

datatype backend_call =
    LockBackend
  | UnlockBackend
  | MainContextWakeup addr
  | CriticalWarning
  | GWarning

text \<open>\<open>p->field = value\<close> for a valid pointer \<open>p\<close>.\<close>

definition set_next :: "addr \<Rightarrow> addr option \<Rightarrow> rec_heap \<Rightarrow> rec_heap" where
  "set_next p v h = h(p := map_option (\<lambda>r. r\<lparr>rec_next := v\<rparr>) (h p))"

definition set_prev :: "addr \<Rightarrow> addr option \<Rightarrow> rec_heap \<Rightarrow> rec_heap" where
  "set_prev p v h = h(p := map_option (\<lambda>r. r\<lparr>rec_prev := v\<rparr>) (h p))"

subsection \<open>Adding a record\<close>

text \<open>
  The loop of \<^verbatim>\<open>add_fd\<close> (gmain-poll.c lines 251-257, part_001 lines 307-313):
  \<^verbatim>\<open>while (prevrec && priority < prevrec->priority) { nextrec = prevrec; prevrec = prevrec->prev; }\<close>
  It yields the final \<open>(prevrec, nextrec)\<close>. Following a pointer to no cell, or walking
  around a cycle for ever, is the result \<open>None\<close>.
\<close>

partial_function (option) scan_back ::
  "rec_heap \<Rightarrow> gint \<Rightarrow> addr option \<Rightarrow> addr option \<Rightarrow> (addr option \<times> addr option) option" where
  "scan_back h priority prevrec nextrec =
     (case prevrec of
        None \<Rightarrow> Some (None, nextrec)
      | Some p \<Rightarrow>
          (case h p of
             None \<Rightarrow> None
           | Some r \<Rightarrow>
               if sint priority < sint (rec_priority r)
               then scan_back h priority (rec_prev r) (Some p)
               else Some (Some p, nextrec)))"

text \<open>
  The body both \<^verbatim>\<open>add_fd\<close> functions share (gmain-poll.c lines 245-272, part_001 lines
  299-328): allocate and fill the new record, find its place from the tail, link it in and
  count it.
\<close>

definition link_record ::
  "gint \<Rightarrow> gushort \<Rightarrow> gint \<Rightarrow> 'a poll_store_scheme \<Rightarrow> 'a poll_store_scheme option" where
  "link_record fd events priority backend =
     (let newrec = slice_next backend;
          b0 = backend\<lparr>recs := (recs backend)(newrec \<mapsto>
                   \<lparr>rec_prev = None, rec_next = None, rec_fd = fd,
                    rec_priority = priority, rec_events = events\<rparr>),
                 slice_next := Suc newrec\<rparr>
      in case scan_back (recs b0) priority (poll_records_tail b0) None of
           None \<Rightarrow> None
         | Some (prevrec, nextrec) \<Rightarrow>
             (let b1 = (case prevrec of
                          Some p \<Rightarrow> b0\<lparr>recs := set_next p (Some newrec) (recs b0)\<rparr>
                        | None \<Rightarrow> b0\<lparr>poll_records := Some newrec\<rparr>);
                  b2 = b1\<lparr>recs := set_next newrec nextrec (set_prev newrec prevrec (recs b1))\<rparr>;
                  b3 = (case nextrec of
                          Some n \<Rightarrow> b2\<lparr>recs := set_prev n (Some newrec) (recs b2)\<rparr>
                        | None \<Rightarrow> b2\<lparr>poll_records_tail := Some newrec\<rparr>)
              in Some (b3\<lparr>n_poll_records := n_poll_records b3 + 1\<rparr>)))"

text \<open>\<^verbatim>\<open>g_baseline_poller_add_fd\<close> (gmain-poll.c lines 237-273): the shared body, nothing else.\<close>

definition g_baseline_poller_add_fd ::
  "GBaselinePollerData \<Rightarrow> gint \<Rightarrow> gushort \<Rightarrow> gint \<Rightarrow>
   (GBaselinePollerData \<times> backend_call list) option" where
  "g_baseline_poller_add_fd backend fd events priority =
     (case link_record fd events priority backend of
        None \<Rightarrow> None
      | Some b \<Rightarrow> Some (b, []))"

text \<open>
  \<^verbatim>\<open>g_poll_context_add_fd\<close> (part_001 lines 291-338): the shared body under the lock, then
  \<^verbatim>\<open>poll_changed\<close> is set, the lock released, the main context woken up and \<^verbatim>\<open>TRUE\<close>
  returned.
\<close>

definition g_poll_context_add_fd ::
  "GPollLoopBackend \<Rightarrow> gint \<Rightarrow> gushort \<Rightarrow> gint \<Rightarrow>
   (bool \<times> GPollLoopBackend \<times> backend_call list) option" where
  "g_poll_context_add_fd backend fd events priority =
     (case link_record fd events priority backend of
        None \<Rightarrow> None
      | Some b \<Rightarrow>
          Some (True, b\<lparr>poll_changed := True\<rparr>,
                [LockBackend, UnlockBackend, MainContextWakeup (main_context b)]))"

subsection \<open>Removing and modifying a record\<close>

text \<open>
  The search from the head that \<^verbatim>\<open>remove_fd\<close> and \<^verbatim>\<open>modify_fd\<close> make: it stops at the
  first record whose descriptor is \<open>fd\<close> and yields \<open>(prevrec, pollrec)\<close>, with \<open>pollrec\<close>
  being \<open>None\<close> when the list has no such record. (The loop variable \<open>pollrec\<close> comes
  before \<open>prevrec\<close> among the arguments.)
\<close>

partial_function (option) find_record ::
  "rec_heap \<Rightarrow> gint \<Rightarrow> addr option \<Rightarrow> addr option \<Rightarrow> (addr option \<times> addr option) option" where
  "find_record h fd pollrec prevrec =
     (case pollrec of
        None \<Rightarrow> Some (prevrec, None)
      | Some a \<Rightarrow>
          (case h a of
             None \<Rightarrow> None
           | Some r \<Rightarrow>
               if rec_fd r = fd then Some (prevrec, Some a)
               else find_record h fd (rec_next r) (Some a)))"

text \<open>
  The body both \<^verbatim>\<open>remove_fd\<close> functions share (gmain-poll.c lines 281-306, part_001 lines
  348-373). The result says whether \<open>pollrec\<close> is non-null after the loop, that is whether
  a record was found, unlinked and freed.
\<close>

definition unlink_record ::
  "gint \<Rightarrow> 'a poll_store_scheme \<Rightarrow> (bool \<times> 'a poll_store_scheme) option" where
  "unlink_record fd backend =
     (case find_record (recs backend) fd (poll_records backend) None of
        None \<Rightarrow> None
      | Some (prevrec, None) \<Rightarrow> Some (False, backend)
      | Some (prevrec, Some pollrec) \<Rightarrow>
          (case recs backend pollrec of
             None \<Rightarrow> None
           | Some r \<Rightarrow>
               (let nextrec = rec_next r;
                    b1 = (case prevrec of
                            Some p \<Rightarrow> backend\<lparr>recs := set_next p nextrec (recs backend)\<rparr>
                          | None \<Rightarrow> backend\<lparr>poll_records := nextrec\<rparr>);
                    b2 = (case nextrec of
                            Some n \<Rightarrow> b1\<lparr>recs := set_prev n prevrec (recs b1)\<rparr>
                          | None \<Rightarrow> b1\<lparr>poll_records_tail := prevrec\<rparr>);
                    b3 = b2\<lparr>recs := (recs b2)(pollrec := None)\<rparr>
                in Some (True, b3\<lparr>n_poll_records := n_poll_records b3 - 1\<rparr>))))"

text \<open>
  \<^verbatim>\<open>g_baseline_poller_remove_fd\<close> (gmain-poll.c lines 275-309): the shared body, then
  \<^verbatim>\<open>g_return_if_fail (pollrec != NULL)\<close>, which logs a critical warning when nothing was
  found.
\<close>

definition g_baseline_poller_remove_fd ::
  "GBaselinePollerData \<Rightarrow> gint \<Rightarrow> (GBaselinePollerData \<times> backend_call list) option" where
  "g_baseline_poller_remove_fd backend fd =
     (case unlink_record fd backend of
        None \<Rightarrow> None
      | Some (found, b) \<Rightarrow> Some (b, if found then [] else [CriticalWarning]))"

text \<open>
  \<^verbatim>\<open>g_poll_context_remove_fd\<close> (part_001 lines 340-383): the shared body under the lock;
  whether or not a record was found, \<^verbatim>\<open>poll_changed\<close> is set, the main context woken up
  and \<^verbatim>\<open>TRUE\<close> returned.
\<close>

definition g_poll_context_remove_fd ::
  "GPollLoopBackend \<Rightarrow> gint \<Rightarrow> (bool \<times> GPollLoopBackend \<times> backend_call list) option" where
  "g_poll_context_remove_fd backend fd =
     (case unlink_record fd backend of
        None \<Rightarrow> None
      | Some (found, b) \<Rightarrow>
          Some (True, b\<lparr>poll_changed := True\<rparr>,
                [LockBackend, UnlockBackend, MainContextWakeup (main_context b)]))"

text \<open>
  The body both \<^verbatim>\<open>modify_fd\<close> functions share (gmain-poll.c lines 320-331, part_001 lines
  396-407): the first record with the descriptor gets the new events and priority, where it
  is.
\<close>

definition update_record ::
  "gint \<Rightarrow> gushort \<Rightarrow> gint \<Rightarrow> 'a poll_store_scheme \<Rightarrow> (bool \<times> 'a poll_store_scheme) option" where
  "update_record fd events priority backend =
     (case find_record (recs backend) fd (poll_records backend) None of
        None \<Rightarrow> None
      | Some (prevrec, None) \<Rightarrow> Some (False, backend)
      | Some (prevrec, Some pollrec) \<Rightarrow>
          Some (True,
                backend\<lparr>recs := (recs backend)(pollrec :=
                   map_option (\<lambda>r. r\<lparr>rec_events := events, rec_priority := priority\<rparr>)
                     (recs backend pollrec))\<rparr>))"

text \<open>\<^verbatim>\<open>g_baseline_poller_modify_fd\<close> (gmain-poll.c lines 311-334).\<close>

definition g_baseline_poller_modify_fd ::
  "GBaselinePollerData \<Rightarrow> gint \<Rightarrow> gushort \<Rightarrow> gint \<Rightarrow>
   (GBaselinePollerData \<times> backend_call list) option" where
  "g_baseline_poller_modify_fd backend fd events priority =
     (case update_record fd events priority backend of
        None \<Rightarrow> None
      | Some (found, b) \<Rightarrow> Some (b, if found then [] else [CriticalWarning]))"

text \<open>\<^verbatim>\<open>g_poll_context_modify_fd\<close> (part_001 lines 385-417).\<close>

definition g_poll_context_modify_fd ::
  "GPollLoopBackend \<Rightarrow> gint \<Rightarrow> gushort \<Rightarrow> gint \<Rightarrow>
   (bool \<times> GPollLoopBackend \<times> backend_call list) option" where
  "g_poll_context_modify_fd backend fd events priority =
     (case update_record fd events priority backend of
        None \<Rightarrow> None
      | Some (found, b) \<Rightarrow>
          Some (True, b\<lparr>poll_changed := True\<rparr>,
                [LockBackend, UnlockBackend, MainContextWakeup (main_context b)]))"

subsection \<open>Querying the records up to a priority\<close>

text \<open>
  The loop of \<^verbatim>\<open>query\<close> (gmain-poll.c lines 345-356, part_001 lines 430-441). The counter
  \<open>n_poll\<close> and the capacity \<open>n_fds\<close> are \<^verbatim>\<open>gint\<close>s, kept as integers here: incrementing
  the counter beyond \<open>2^31 - 1\<close> is undefined in C and so is writing to a slot the array
  does not have; both are the result \<open>None\<close>. The three assignments to the fields of
  \<^verbatim>\<open>fds[n_poll]\<close> make the slot \<open>slot_for r\<close>.
\<close>

definition slot_for :: "GPollRec \<Rightarrow> GPollFD" where
  "slot_for r = \<lparr>pollfd_fd = rec_fd r, pollfd_events = rec_events r, pollfd_revents = 0\<rparr>"

partial_function (option) query_loop ::
  "rec_heap \<Rightarrow> gint \<Rightarrow> int \<Rightarrow> addr option \<Rightarrow> int \<Rightarrow> GPollFD list \<Rightarrow> (int \<times> GPollFD list) option" where
  "query_loop h max_priority n_fds pollrec n_poll fds =
     (case pollrec of
        None \<Rightarrow> Some (n_poll, fds)
      | Some a \<Rightarrow>
          (case h a of
             None \<Rightarrow> None
           | Some r \<Rightarrow>
               if sint max_priority \<ge> sint (rec_priority r)
               then
                 (if n_poll < n_fds \<and> rec_events r \<noteq> 0
                  then
                    (if 0 \<le> n_poll \<and> nat n_poll < length fds \<and> n_poll < 2 ^ 31 - 1
                     then query_loop h max_priority n_fds (rec_next r) (n_poll + 1)
                            (fds[nat n_poll := slot_for r])
                     else None)
                  else
                    (if n_poll < 2 ^ 31 - 1
                     then query_loop h max_priority n_fds (rec_next r) (n_poll + 1) fds
                     else None))
               else Some (n_poll, fds)))"

text \<open>\<^verbatim>\<open>g_baseline_poller_query\<close> (gmain-poll.c lines 336-359).\<close>

definition g_baseline_poller_query ::
  "GBaselinePollerData \<Rightarrow> gint \<Rightarrow> GPollFD list \<Rightarrow> int \<Rightarrow> (int \<times> GPollFD list) option" where
  "g_baseline_poller_query backend max_priority fds n_fds =
     query_loop (recs backend) max_priority n_fds (poll_records backend) 0 fds"

text \<open>
  \<^verbatim>\<open>g_poll_context_query\<close> (part_001 lines 419-446): the same loop, then \<^verbatim>\<open>poll_changed\<close>
  is cleared.
\<close>

definition g_poll_context_query ::
  "GPollLoopBackend \<Rightarrow> gint \<Rightarrow> GPollFD list \<Rightarrow> int \<Rightarrow>
   (int \<times> GPollFD list \<times> GPollLoopBackend) option" where
  "g_poll_context_query backend max_priority fds n_fds =
     (case query_loop (recs backend) max_priority n_fds (poll_records backend) 0 fds of
        None \<Rightarrow> None
      | Some (n_poll, fds') \<Rightarrow> Some (n_poll, fds', backend\<lparr>poll_changed := False\<rparr>))"

subsection \<open>Creating a backend\<close>

text \<open>
  \<^verbatim>\<open>_g_baseline_poller_new\<close> (gmain-poll.c lines 94-102) and \<^verbatim>\<open>g_poll_context_create\<close>
  followed by \<^verbatim>\<open>g_poll_context_set_context\<close> (part_001 lines 111-133): the struct is
  zero-filled, so the list is empty. \<^verbatim>\<open>g_poll\<close>, the default polling function of the
  second one, is its argument \<open>g_poll\<close>.
\<close>

definition g_baseline_poller_new :: "GPollFunc \<Rightarrow> GBaselinePollerData" where
  "g_baseline_poller_new func =
     \<lparr>recs = Map.empty, slice_next = 0, poll_records = None, poll_records_tail = None,
      n_poll_records = 0, cached_poll_array = None, cached_poll_array_size = 0,
      poll_func = func\<rparr>"

definition g_poll_context_create :: "GPollFunc \<Rightarrow> addr \<Rightarrow> GPollLoopBackend" where
  "g_poll_context_create g_poll ctx =
     \<lparr>recs = Map.empty, slice_next = 0, poll_records = None, poll_records_tail = None,
      n_poll_records = 0, main_context = ctx, loop_cached_poll_array = None,
      loop_cached_poll_array_size = 0, poll_changed = False, loop_poll_func = g_poll\<rparr>"

subsection \<open>Polling\<close>

text \<open>
  \<^verbatim>\<open>g_baseline_poller_poll\<close> (gmain-poll.c lines 160-235) and \<^verbatim>\<open>g_poll_context_poll\<close>
  (part_001 lines 206-289), without \<^verbatim>\<open>G_MAIN_POLL_DEBUG\<close> and not on Windows. The polling
  function is called unless there is nothing to poll and no time to wait; a negative
  result with \<^verbatim>\<open>errno\<close> other than \<^verbatim>\<open>EINTR\<close> is a warning. The function returns nothing:
  what the caller gets is the array as the polling function left it.
\<close>

definition g_baseline_poller_poll ::
  "GBaselinePollerData \<Rightarrow> int \<Rightarrow> gint \<Rightarrow> GPollFD list \<Rightarrow> int \<Rightarrow> GPollFD list \<times> backend_call list" where
  "g_baseline_poller_poll backend timeout priority fds n_fds =
     (if n_fds \<noteq> 0 \<or> timeout \<noteq> 0
      then (let (ret, err, fds') = poll_func backend fds n_fds timeout
            in (fds', if ret < 0 \<and> err \<noteq> EINTR then [GWarning] else []))
      else (fds, []))"


subsection \<open>The list a store holds\<close>

text \<open>
  \<open>path h field x as y\<close>: starting from the pointer \<open>x\<close> and following \<open>field\<close>, the cells
  visited are \<open>as\<close>, in this order, and the pointer found in the last one is \<open>y\<close>.
\<close>

fun path :: "rec_heap \<Rightarrow> (GPollRec \<Rightarrow> addr option) \<Rightarrow> addr option \<Rightarrow> addr list \<Rightarrow> addr option \<Rightarrow> bool" where
  "path h field x [] y = (x = y)"
| "path h field x (a # as) y =
     (x = Some a \<and> (case h a of None \<Rightarrow> False | Some r \<Rightarrow> path h field (field r) as y))"

text \<open>
  The store holds the records at the addresses \<open>as\<close>, from head to tail: they are distinct,
  were all allocated, are what \<^verbatim>\<open>next\<close> visits from \<^verbatim>\<open>poll_records\<close> and, in the opposite
  order, what \<^verbatim>\<open>prev\<close> visits from \<^verbatim>\<open>poll_records_tail\<close>.
\<close>

definition holds :: "'a poll_store_scheme \<Rightarrow> addr list \<Rightarrow> bool" where
  "holds backend as =
     (distinct as \<and> list_all (\<lambda>a. a < slice_next backend) as \<and>
      path (recs backend) rec_next (poll_records backend) as None \<and>
      path (recs backend) rec_prev (poll_records_tail backend) (rev as) None)"

text \<open>The priority, the descriptor and the events stored at an address.\<close>

definition priority_at :: "'a poll_store_scheme \<Rightarrow> addr \<Rightarrow> int" where
  "priority_at backend a = (case recs backend a of None \<Rightarrow> 0 | Some r \<Rightarrow> sint (rec_priority r))"

definition fd_at :: "'a poll_store_scheme \<Rightarrow> addr \<Rightarrow> gint option" where
  "fd_at backend a = map_option rec_fd (recs backend a)"

definition events_at :: "'a poll_store_scheme \<Rightarrow> addr \<Rightarrow> gushort option" where
  "events_at backend a = map_option rec_events (recs backend a)"

text \<open>What a record says, without its links: descriptor, events and priority.\<close>

definition entry_at :: "'a poll_store_scheme \<Rightarrow> addr \<Rightarrow> (gint \<times> gushort \<times> gint) option" where
  "entry_at backend a = map_option (\<lambda>r. (rec_fd r, rec_events r, rec_priority r)) (recs backend a)"

text \<open>A sequence of \<^verbatim>\<open>add_fd\<close> calls, each with its descriptor, events and priority.\<close>

fun baseline_adds ::
  "(gint \<times> gushort \<times> gint) list \<Rightarrow> GBaselinePollerData \<Rightarrow> GBaselinePollerData option" where
  "baseline_adds [] backend = Some backend"
| "baseline_adds ((fd, events, priority) # calls) backend =
     (case g_baseline_poller_add_fd backend fd events priority of
        None \<Rightarrow> None
      | Some (b, _) \<Rightarrow> baseline_adds calls b)"

fun poll_context_adds ::
  "(gint \<times> gushort \<times> gint) list \<Rightarrow> GPollLoopBackend \<Rightarrow> GPollLoopBackend option" where
  "poll_context_adds [] backend = Some backend"
| "poll_context_adds ((fd, events, priority) # calls) backend =
     (case g_poll_context_add_fd backend fd events priority of
        None \<Rightarrow> None
      | Some (_, b, _) \<Rightarrow> poll_context_adds calls b)"

text \<open>The pointer to the first cell of a list of addresses, and to the last one.\<close>

definition first_opt :: "addr list \<Rightarrow> addr option" where
  "first_opt as = (case as of [] \<Rightarrow> None | a # _ \<Rightarrow> Some a)"

definition last_opt :: "addr list \<Rightarrow> addr option" where
  "last_opt as = (if as = [] then None else Some (last as))"

text \<open>
  The array a query leaves, said slot by slot: the records at the addresses \<open>sel\<close> belong
  to the slots from \<open>k\<close> on, one each; a slot below \<open>n_fds\<close> whose record has events other
  than 0 holds that record's descriptor and events and no observed events; every other
  slot is what it was.
\<close>

definition slots_from :: "rec_heap \<Rightarrow> addr list \<Rightarrow> int \<Rightarrow> nat \<Rightarrow> GPollFD list \<Rightarrow> GPollFD list" where
  "slots_from h sel n_fds k fds =
     map (\<lambda>i. if k \<le> i \<and> i < k + length sel \<and> int i < n_fds
              then (case h (sel ! (i - k)) of
                      None \<Rightarrow> fds ! i
                    | Some r \<Rightarrow> if rec_events r \<noteq> 0 then slot_for r else fds ! i)
              else fds ! i)
       [0..<length fds]"

subsection \<open>An example store\<close>

text \<open>A polling function that finds nothing ready and leaves the array alone.\<close>

definition idle_poll :: GPollFunc where
  "idle_poll fds n_fds timeout = (0, 0, fds)"

text \<open>
  Four descriptors, each watched for input (events 1), added with the priorities 5, 1, 3
  and 1 in this order.
\<close>

definition four_calls :: "(gint \<times> gushort \<times> gint) list" where
  "four_calls = [(10, 1, 5), (11, 1, 1), (12, 1, 3), (13, 1, 1)]"

text \<open>
  The cells after these four calls: the list runs through the addresses 1, 3, 2, 0, which
  hold the priorities 1, 1, 3, 5.
\<close>

definition four_cells :: rec_heap where
  "four_cells =
     [0 \<mapsto> \<lparr>rec_prev = Some 2, rec_next = None, rec_fd = 10, rec_priority = 5, rec_events = 1\<rparr>,
      1 \<mapsto> \<lparr>rec_prev = None, rec_next = Some 3, rec_fd = 11, rec_priority = 1, rec_events = 1\<rparr>,
      2 \<mapsto> \<lparr>rec_prev = Some 3, rec_next = Some 0, rec_fd = 12, rec_priority = 3, rec_events = 1\<rparr>,
      3 \<mapsto> \<lparr>rec_prev = Some 1, rec_next = Some 2, rec_fd = 13, rec_priority = 1, rec_events = 1\<rparr>]"

definition baseline_four :: GBaselinePollerData where
  "baseline_four =
     \<lparr>recs = four_cells, slice_next = 4, poll_records = Some 1, poll_records_tail = Some 0,
      n_poll_records = 4, cached_poll_array = None, cached_poll_array_size = 0,
      poll_func = idle_poll\<rparr>"

definition loop_four :: GPollLoopBackend where
  "loop_four =
     \<lparr>recs = four_cells, slice_next = 4, poll_records = Some 1, poll_records_tail = Some 0,
      n_poll_records = 4, main_context = 7, loop_cached_poll_array = None,
      loop_cached_poll_array_size = 0, poll_changed = True, loop_poll_func = idle_poll\<rparr>"

text \<open>A store with one record, added with no events to watch for.\<close>

definition muted_cells :: rec_heap where
  "muted_cells =
     [0 \<mapsto> \<lparr>rec_prev = None, rec_next = None, rec_fd = 10, rec_priority = 0, rec_events = 0\<rparr>]"

definition baseline_muted :: GBaselinePollerData where
  "baseline_muted =
     \<lparr>recs = muted_cells, slice_next = 1, poll_records = Some 0, poll_records_tail = Some 0,
      n_poll_records = 1, cached_poll_array = None, cached_poll_array_size = 0,
      poll_func = idle_poll\<rparr>"

text \<open>What an array slot may hold from an earlier cycle.\<close>

definition stale :: GPollFD where
  "stale = \<lparr>pollfd_fd = 99, pollfd_events = 4, pollfd_revents = 4\<rparr>"

section \<open>The epoll backend (gmain-epoll.c)\<close>

text \<open>
  The file is in the sources in three revisions. The first (lines 1-474) and the second
  (lines 475-902, where the backend is \<^verbatim>\<open>GEpollerData\<close> and the functions are
  \<^verbatim>\<open>g_epoller_*\<close>) keep the descriptors the kernel refuses at the front of the array
  \<^verbatim>\<open>fds_ready\<close>, counted by \<^verbatim>\<open>n_compat_fds\<close>. The third (lines 903-1422) keeps them in
  the hash table \<^verbatim>\<open>compat_fds\<close> under a mutex; its record and functions carry the suffix
  \<open>_hash\<close> here, since their C names are those of the first revision.
\<close>

subsection \<open>The kernel and the main context\<close>

text \<open>
  \<^verbatim>\<open>struct epoll_event\<close> (\<^verbatim>\<open>sys/epoll.h\<close>), of which the code sets \<^verbatim>\<open>events\<close> and
  \<^verbatim>\<open>data.fd\<close> after clearing the whole struct.
\<close>

record epoll_event =
  epoll_events :: uint32_t
  epoll_data_fd :: gint

datatype epoll_op = EPOLL_CTL_ADD | EPOLL_CTL_MOD | EPOLL_CTL_DEL

text \<open>
  The byte order of the machine (\<^verbatim>\<open>G_BYTE_ORDER\<close>), which decides what a \<^verbatim>\<open>memmove\<close> of a
  part of a struct does.
\<close>

datatype byte_order = G_LITTLE_ENDIAN | G_BIG_ENDIAN

text \<open>
  What the backend calls and does not define: the kernel (\<^verbatim>\<open>epoll_ctl\<close> and \<^verbatim>\<open>epoll_wait\<close>
  return their result and the \<^verbatim>\<open>errno\<close> they leave, \<^verbatim>\<open>epoll_wait\<close> also the events it
  has written to its output array), \<^verbatim>\<open>g_poll\<close>, and the constants of the headers.
\<close>

record epoll_env =
  headers :: io_consts
  machine :: byte_order
  epoll_ctl :: "int \<Rightarrow> epoll_op \<Rightarrow> gint \<Rightarrow> epoll_event \<Rightarrow> int \<times> errno"
  epoll_wait :: "int \<Rightarrow> int \<Rightarrow> int \<Rightarrow> int \<times> errno \<times> epoll_event list"
  g_poll :: GPollFunc


text \<open>What a call leaves behind, in order.\<close>

datatype epoll_call =
    EpollCtl int epoll_op gint epoll_event
  | EpollWait int int int
  | GPoll "GPollFD list" int int
  | LockEpoll
  | UnlockEpoll
  | EpollWarning
  | Dispatch addr

subsection \<open>Arrays\<close>

text \<open>
  An array is a function from indexes to elements, its allocated size a field beside it;
  \<^verbatim>\<open>g_renew\<close> keeps the elements there were, and what the new ones hold is whatever the
  function has there. \<open>store_list a k xs\<close> writes the list \<open>xs\<close> from index \<open>k\<close> on.
\<close>

fun store_list :: "(nat \<Rightarrow> 'a) \<Rightarrow> nat \<Rightarrow> 'a list \<Rightarrow> (nat \<Rightarrow> 'a)" where
  "store_list a k [] = a"
| "store_list a k (x # xs) = store_list (a(k := x)) (Suc k) xs"

text \<open>
  Memory as bytes. A \<^verbatim>\<open>GPollFD\<close> is eight bytes: four of \<^verbatim>\<open>fd\<close>, two of \<^verbatim>\<open>events\<close>, two
  of \<^verbatim>\<open>revents\<close>, each field in the byte order of the machine.
\<close>

definition word_bytes :: "byte_order \<Rightarrow> nat \<Rightarrow> 'a::len word \<Rightarrow> 8 word list" where
  "word_bytes bo n w =
     (let bs = map (\<lambda>k. ucast (drop_bit (8 * k) w)) [0..<n]
      in if bo = G_BIG_ENDIAN then rev bs else bs)"

definition bytes_word :: "byte_order \<Rightarrow> 8 word list \<Rightarrow> 'a::len word" where
  "bytes_word bo bs =
     foldr (\<lambda>b w. ucast b OR push_bit 8 w) (if bo = G_BIG_ENDIAN then rev bs else bs) 0"

definition GPollFD_bytes :: "byte_order \<Rightarrow> GPollFD \<Rightarrow> 8 word list" where
  "GPollFD_bytes bo p =
     word_bytes bo 4 (pollfd_fd p) @ word_bytes bo 2 (pollfd_events p) @
     word_bytes bo 2 (pollfd_revents p)"

definition bytes_GPollFD :: "byte_order \<Rightarrow> 8 word list \<Rightarrow> GPollFD" where
  "bytes_GPollFD bo bs =
     \<lparr>pollfd_fd = bytes_word bo (take 4 bs),
      pollfd_events = bytes_word bo (take 2 (drop 4 bs)),
      pollfd_revents = bytes_word bo (take 2 (drop 6 bs))\<rparr>"

text \<open>The byte at offset \<open>j\<close> of an array of \<^verbatim>\<open>GPollFD\<close>.\<close>

definition array_byte :: "byte_order \<Rightarrow> (nat \<Rightarrow> GPollFD) \<Rightarrow> nat \<Rightarrow> 8 word" where
  "array_byte bo fds j = GPollFD_bytes bo (fds (j div 8)) ! (j mod 8)"

text \<open>
  \<^verbatim>\<open>memmove (fds + dest, fds + src, n)\<close>: the pointers count elements, \<open>n\<close> counts bytes. The
  \<open>n\<close> bytes from the element \<open>src\<close> on are copied to the element \<open>dest\<close> on; the array after
  that is read back element by element.
\<close>

definition memmove_GPollFD ::
  "byte_order \<Rightarrow> (nat \<Rightarrow> GPollFD) \<Rightarrow> nat \<Rightarrow> nat \<Rightarrow> nat \<Rightarrow> (nat \<Rightarrow> GPollFD)" where
  "memmove_GPollFD bo fds dest src n =
     (\<lambda>k. bytes_GPollFD bo
        (map (\<lambda>j. if 8 * dest \<le> j \<and> j < 8 * dest + n
                  then array_byte bo fds (8 * src + (j - 8 * dest))
                  else array_byte bo fds j)
           [8 * k..<8 * k + 8]))"

subsection \<open>The compatibility set as an array: \<^verbatim>\<open>g_epoller_*\<close> (second revision)\<close>

text \<open>
  \<^verbatim>\<open>struct _GEpollerData\<close> (lines 517-530). \<^verbatim>\<open>n_poll_records\<close> is \<open>epoll_n_poll_records\<close>
  here, the name being a field of the poll store already.
\<close>

record GEpollerData =
  epoll_fd :: int
  epoll_n_poll_records :: guint
  epoll_output :: "nat \<Rightarrow> epoll_event"
  epoll_output_size :: nat
  fds_ready :: "nat \<Rightarrow> GPollFD"
  fds_ready_size :: nat
  n_compat_fds :: guint

text \<open>\<^verbatim>\<open>g_epoller_ensure_ready_size\<close> (lines 711-719).\<close>

definition g_epoller_ensure_ready_size ::
  "'a GEpollerData_scheme \<Rightarrow> nat \<Rightarrow> 'a GEpollerData_scheme" where
  "g_epoller_ensure_ready_size backend needed =
     (if needed > fds_ready_size backend then backend\<lparr>fds_ready_size := needed\<rparr> else backend)"

text \<open>
  \<^verbatim>\<open>g_epoller_add_fd\<close> (lines 799-837); it returns nothing. \<^verbatim>\<open>i_next + 1\<close> is computed in
  \<^verbatim>\<open>guint\<close>.
\<close>

definition g_epoller_add_fd ::
  "epoll_env \<Rightarrow> GEpollerData \<Rightarrow> gint \<Rightarrow> gushort \<Rightarrow> gint \<Rightarrow> GEpollerData \<times> epoll_call list" where
  "g_epoller_add_fd env backend fd events priority =
     (let ev = \<lparr>epoll_events = g_io_condition_to_epoll_events (headers env) events, epoll_data_fd = fd\<rparr>;
          (retval, err) = epoll_ctl env (epoll_fd backend) EPOLL_CTL_ADD fd ev;
          called = [EpollCtl (epoll_fd backend) EPOLL_CTL_ADD fd ev]
      in if retval \<noteq> 0
         then (if err = EPERM
               then (let i_next = n_compat_fds backend;
                         backend = backend\<lparr>n_compat_fds := i_next + 1\<rparr>;
                         backend = g_epoller_ensure_ready_size backend (unat (i_next + 1))
                     in (backend\<lparr>fds_ready := (fds_ready backend)
                            (unat i_next := \<lparr>pollfd_fd = fd, pollfd_events = events,
                                             pollfd_revents = 0\<rparr>)\<rparr>,
                         called))
               else (backend, called @ [EpollWarning]))
         else (backend\<lparr>epoll_n_poll_records := epoll_n_poll_records backend + 1\<rparr>, called))"

text \<open>
  The loop \<^verbatim>\<open>for (i = 0; i < backend->n_compat_fds; i++) if (backend->fds_ready[i].fd == fd)\<close>
  that \<^verbatim>\<open>modify_fd\<close> and \<^verbatim>\<open>remove_fd\<close> start with: the first index below \<^verbatim>\<open>n_compat_fds\<close>
  whose element has the descriptor, if there is one.
\<close>

definition compat_index :: "'a GEpollerData_scheme \<Rightarrow> gint \<Rightarrow> nat option" where
  "compat_index backend fd =
     find (\<lambda>i. pollfd_fd (fds_ready backend i) = fd) [0..<unat (n_compat_fds backend)]"

text \<open>\<^verbatim>\<open>g_epoller_modify_fd\<close> (lines 839-864).\<close>

definition g_epoller_modify_fd ::
  "epoll_env \<Rightarrow> GEpollerData \<Rightarrow> gint \<Rightarrow> gushort \<Rightarrow> gint \<Rightarrow> GEpollerData \<times> epoll_call list" where
  "g_epoller_modify_fd env backend fd events priority =
     (case compat_index backend fd of
        Some i \<Rightarrow>
          (backend\<lparr>fds_ready := (fds_ready backend)
              (i := (fds_ready backend i)\<lparr>pollfd_events := events\<rparr>)\<rparr>, [])
      | None \<Rightarrow>
          (let ev = \<lparr>epoll_events = g_io_condition_to_epoll_events (headers env) events,
                     epoll_data_fd = fd\<rparr>;
               (retval, err) = epoll_ctl env (epoll_fd backend) EPOLL_CTL_MOD fd ev;
               called = [EpollCtl (epoll_fd backend) EPOLL_CTL_MOD fd ev]
           in (backend, if retval \<noteq> 0 then called @ [EpollWarning] else called)))"

text \<open>
  \<^verbatim>\<open>g_epoller_remove_fd\<close> (lines 866-900). The third argument of \<^verbatim>\<open>memmove\<close> is
  \<^verbatim>\<open>backend->n_compat_fds - 1 - i\<close>, as the source has it: a number of elements, given as the
  number of bytes to move.
\<close>

definition g_epoller_remove_fd ::
  "epoll_env \<Rightarrow> GEpollerData \<Rightarrow> gint \<Rightarrow> GEpollerData \<times> epoll_call list" where
  "g_epoller_remove_fd env backend fd =
     (case compat_index backend fd of
        Some i \<Rightarrow>
          (backend\<lparr>fds_ready := memmove_GPollFD (machine env) (fds_ready backend) i (i + 1)
                                  (unat (n_compat_fds backend - 1 - of_nat i)),
                   n_compat_fds := n_compat_fds backend - 1\<rparr>, [])
      | None \<Rightarrow>
          (let backend = backend\<lparr>epoll_n_poll_records := epoll_n_poll_records backend - 1\<rparr>;
               dummy_ev = \<lparr>epoll_events = 0, epoll_data_fd = 0\<rparr>;
               (retval, err) = epoll_ctl env (epoll_fd backend) EPOLL_CTL_DEL fd dummy_ev;
               called = [EpollCtl (epoll_fd backend) EPOLL_CTL_DEL fd dummy_ev]
           in (backend,
               if retval \<noteq> 0 \<and> err \<noteq> EBADF \<and> err \<noteq> ENOENT \<and> err \<noteq> EPERM
               then called @ [EpollWarning] else called)))"

subsection \<open>The compatibility set as an array: \<^verbatim>\<open>g_epoll_context_*\<close> (first revision)\<close>

text \<open>
  \<^verbatim>\<open>struct _GEpollLoopBackend\<close> (lines 45-60): the fields of the second revision and the
  context, which the source has first.
\<close>

record GEpollLoopBackend = GEpollerData +
  epoll_context :: addr

text \<open>\<^verbatim>\<open>g_epoll_context_ensure_ready_size\<close> (lines 247-255).\<close>

definition g_epoll_context_ensure_ready_size :: "GEpollLoopBackend \<Rightarrow> nat \<Rightarrow> GEpollLoopBackend" where
  "g_epoll_context_ensure_ready_size backend needed =
     (if needed > fds_ready_size backend then backend\<lparr>fds_ready_size := needed\<rparr> else backend)"

text \<open>\<^verbatim>\<open>g_epoll_context_add_fd\<close> (lines 345-395).\<close>

definition g_epoll_context_add_fd ::
  "epoll_env \<Rightarrow> GEpollLoopBackend \<Rightarrow> gint \<Rightarrow> gushort \<Rightarrow> gint \<Rightarrow>
   bool \<times> GEpollLoopBackend \<times> epoll_call list" where
  "g_epoll_context_add_fd env backend fd events priority =
     (let ev = \<lparr>epoll_events = g_io_condition_to_epoll_events (headers env) events, epoll_data_fd = fd\<rparr>;
          (retval, err) = epoll_ctl env (epoll_fd backend) EPOLL_CTL_ADD fd ev;
          called = [EpollCtl (epoll_fd backend) EPOLL_CTL_ADD fd ev]
      in if retval \<noteq> 0
         then (if err = EPERM
               then (let i_next = n_compat_fds backend;
                         backend = g_epoll_context_ensure_ready_size backend (unat (i_next + 1))
                     in (True,
                         backend\<lparr>fds_ready := (fds_ready backend)
                            (unat i_next := \<lparr>pollfd_fd = fd, pollfd_events = events,
                                             pollfd_revents = 0\<rparr>),
                                  n_compat_fds := i_next + 1\<rparr>,
                         called))
               else (False, backend, called @ [EpollWarning]))
         else (True, backend\<lparr>epoll_n_poll_records := epoll_n_poll_records backend + 1\<rparr>, called))"

text \<open>\<^verbatim>\<open>g_epoll_context_modify_fd\<close> (lines 397-427).\<close>

definition g_epoll_context_modify_fd ::
  "epoll_env \<Rightarrow> GEpollLoopBackend \<Rightarrow> gint \<Rightarrow> gushort \<Rightarrow> gint \<Rightarrow>
   bool \<times> GEpollLoopBackend \<times> epoll_call list" where
  "g_epoll_context_modify_fd env backend fd events priority =
     (case compat_index backend fd of
        Some i \<Rightarrow>
          (True,
           backend\<lparr>fds_ready := (fds_ready backend)
              (i := (fds_ready backend i)\<lparr>pollfd_events := events\<rparr>)\<rparr>, [])
      | None \<Rightarrow>
          (let ev = \<lparr>epoll_events = g_io_condition_to_epoll_events (headers env) events,
                     epoll_data_fd = fd\<rparr>;
               (retval, err) = epoll_ctl env (epoll_fd backend) EPOLL_CTL_MOD fd ev;
               called = [EpollCtl (epoll_fd backend) EPOLL_CTL_MOD fd ev]
           in if retval \<noteq> 0 then (False, backend, called @ [EpollWarning])
              else (True, backend, called)))"

text \<open>\<^verbatim>\<open>g_epoll_context_remove_fd\<close> (lines 429-472), with the same \<^verbatim>\<open>memmove\<close>.\<close>

definition g_epoll_context_remove_fd ::
  "epoll_env \<Rightarrow> GEpollLoopBackend \<Rightarrow> gint \<Rightarrow> bool \<times> GEpollLoopBackend \<times> epoll_call list" where
  "g_epoll_context_remove_fd env backend fd =
     (case compat_index backend fd of
        Some i \<Rightarrow>
          (True,
           backend\<lparr>fds_ready := memmove_GPollFD (machine env) (fds_ready backend) i (i + 1)
                                  (unat (n_compat_fds backend - 1 - of_nat i)),
                   n_compat_fds := n_compat_fds backend - 1\<rparr>, [])
      | None \<Rightarrow>
          (let backend = backend\<lparr>epoll_n_poll_records := epoll_n_poll_records backend - 1\<rparr>;
               dummy_ev = \<lparr>epoll_events = 0, epoll_data_fd = 0\<rparr>;
               (retval, err) = epoll_ctl env (epoll_fd backend) EPOLL_CTL_DEL fd dummy_ev;
               called = [EpollCtl (epoll_fd backend) EPOLL_CTL_DEL fd dummy_ev]
           in if retval \<noteq> 0
              then (False, backend,
                    if err \<noteq> EBADF \<and> err \<noteq> ENOENT \<and> err \<noteq> EPERM
                    then called @ [EpollWarning] else called)
              else (True, backend, called)))"

text \<open>The compatibility set of the array revisions: the first \<^verbatim>\<open>n_compat_fds\<close> elements.\<close>

definition compat_entries :: "'a GEpollerData_scheme \<Rightarrow> GPollFD list" where
  "compat_entries backend = map (fds_ready backend) [0..<unat (n_compat_fds backend)]"

text \<open>
  A sequence of \<^verbatim>\<open>g_epoll_context_add_fd\<close> calls, each with its descriptor and events; what
  the calls return is dropped.
\<close>

fun epoll_adds ::
  "epoll_env \<Rightarrow> (gint \<times> gushort) list \<Rightarrow> GEpollLoopBackend \<Rightarrow> GEpollLoopBackend" where
  "epoll_adds env [] backend = backend"
| "epoll_adds env ((fd, events) # calls) backend =
     epoll_adds env calls (fst (snd (g_epoll_context_add_fd env backend fd events 0)))"

subsection \<open>The compatibility set as a hash table (third revision)\<close>

text \<open>
  \<^verbatim>\<open>struct _GEpollLoopBackend\<close> (lines 946-963). The fields carry the prefix \<open>hash_\<close>. The
  table \<^verbatim>\<open>compat_fds\<close>, from descriptors to events, is the list of its entries in the order
  in which \<^verbatim>\<open>g_hash_table_iter_next\<close> gives them, no key twice: \<^verbatim>\<open>g_hash_table_replace\<close>
  is \<open>AList.update\<close>, \<^verbatim>\<open>g_hash_table_remove\<close> is \<open>AList.delete\<close> and tells whether the key
  was there, \<^verbatim>\<open>g_hash_table_contains\<close> asks for that only. The mutex is seen in the calls
  \<open>LockEpoll\<close> and \<open>UnlockEpoll\<close>.
\<close>

record GEpollLoopBackend_hash =
  hash_context :: addr
  hash_epoll_fd :: int
  hash_n_poll_records :: guint
  hash_epoll_output :: "nat \<Rightarrow> epoll_event"
  hash_epoll_output_size :: nat
  hash_fds_ready :: "nat \<Rightarrow> GPollFD"
  hash_fds_ready_size :: nat
  compat_fds :: "(gint \<times> gushort) list"

definition g_hash_table_contains :: "(gint \<times> gushort) list \<Rightarrow> gint \<Rightarrow> bool" where
  "g_hash_table_contains table key = (map_of table key \<noteq> None)"

text \<open>\<^verbatim>\<open>g_epoll_context_ensure_ready_size\<close> (lines 1162-1170).\<close>

definition g_epoll_context_ensure_ready_size_hash ::
  "GEpollLoopBackend_hash \<Rightarrow> nat \<Rightarrow> GEpollLoopBackend_hash" where
  "g_epoll_context_ensure_ready_size_hash backend needed =
     (if needed > hash_fds_ready_size backend then backend\<lparr>hash_fds_ready_size := needed\<rparr>
      else backend)"



text \<open>What the loop at the end of \<^verbatim>\<open>g_epoll_context_iterate\<close> makes of one event.\<close>

definition ready_pollfd :: "io_consts \<Rightarrow> epoll_event \<Rightarrow> GPollFD" where
  "ready_pollfd c ev =
     \<lparr>pollfd_fd = epoll_data_fd ev,
      pollfd_events = G_IO_IN c OR G_IO_OUT c OR G_IO_PRI c,
      pollfd_revents = g_io_condition_from_epoll_events c (epoll_events ev)\<rparr>"


text \<open>
  The second is the end of the function (lines 1252-1262): the descriptors the kernel has
  reported are written to \<^verbatim>\<open>fds_ready\<close> behind the compatibility set.
  \<^verbatim>\<open>n_compat_fds + (guint) n_ready\<close> is computed in \<^verbatim>\<open>guint\<close>.
\<close>

definition collect_ready ::
  "epoll_env \<Rightarrow> GEpollLoopBackend_hash \<Rightarrow> guint \<Rightarrow> int \<Rightarrow> GEpollLoopBackend_hash" where
  "collect_ready env backend n_compat n_ready =
     (let backend = g_epoll_context_ensure_ready_size_hash backend
                      (unat (n_compat + (of_int n_ready :: guint)))
      in backend\<lparr>hash_fds_ready := store_list (hash_fds_ready backend) (unat n_compat)
                    (map (\<lambda>i. ready_pollfd (headers env) (hash_epoll_output backend i))
                       [0..<nat n_ready])\<rparr>)"


text \<open>\<^verbatim>\<open>g_epoll_context_add_fd\<close> (lines 1295-1340).\<close>

definition g_epoll_context_add_fd_hash ::
  "epoll_env \<Rightarrow> GEpollLoopBackend_hash \<Rightarrow> gint \<Rightarrow> gushort \<Rightarrow> gint \<Rightarrow>
   bool \<times> GEpollLoopBackend_hash \<times> epoll_call list" where
  "g_epoll_context_add_fd_hash env backend fd events priority =
     (let ev = \<lparr>epoll_events = g_io_condition_to_epoll_events (headers env) events, epoll_data_fd = fd\<rparr>;
          (retval, err) = epoll_ctl env (hash_epoll_fd backend) EPOLL_CTL_ADD fd ev;
          called = [EpollCtl (hash_epoll_fd backend) EPOLL_CTL_ADD fd ev]
      in if retval \<noteq> 0
         then (if err = EPERM
               then (True,
                     backend\<lparr>compat_fds := AList.update fd events (compat_fds backend)\<rparr>,
                     called @ [LockEpoll, UnlockEpoll])
               else (False, backend, called @ [EpollWarning]))
         else (True, backend\<lparr>hash_n_poll_records := hash_n_poll_records backend + 1\<rparr>, called))"

text \<open>\<^verbatim>\<open>g_epoll_context_modify_fd\<close> (lines 1342-1377).\<close>

definition g_epoll_context_modify_fd_hash ::
  "epoll_env \<Rightarrow> GEpollLoopBackend_hash \<Rightarrow> gint \<Rightarrow> gushort \<Rightarrow> gint \<Rightarrow>
   bool \<times> GEpollLoopBackend_hash \<times> epoll_call list" where
  "g_epoll_context_modify_fd_hash env backend fd events priority =
     (let is_compat = g_hash_table_contains (compat_fds backend) fd;
          backend = (if is_compat
                     then backend\<lparr>compat_fds := AList.update fd events (compat_fds backend)\<rparr>
                     else backend)
      in if is_compat then (True, backend, [LockEpoll, UnlockEpoll])
         else (let ev = \<lparr>epoll_events = g_io_condition_to_epoll_events (headers env) events,
                          epoll_data_fd = fd\<rparr>;
                   (retval, err) = epoll_ctl env (hash_epoll_fd backend) EPOLL_CTL_MOD fd ev;
                   called = [LockEpoll, UnlockEpoll,
                             EpollCtl (hash_epoll_fd backend) EPOLL_CTL_MOD fd ev]
               in if retval \<noteq> 0 then (False, backend, called @ [EpollWarning])
                  else (True, backend, called)))"

text \<open>
  \<^verbatim>\<open>g_epoll_context_remove_fd\<close> (lines 1379-1420). The result of
  \<^verbatim>\<open>g_atomic_int_dec_and_test\<close> is not used.
\<close>

definition g_epoll_context_remove_fd_hash ::
  "epoll_env \<Rightarrow> GEpollLoopBackend_hash \<Rightarrow> gint \<Rightarrow>
   bool \<times> GEpollLoopBackend_hash \<times> epoll_call list" where
  "g_epoll_context_remove_fd_hash env backend fd =
     (let was_compat_fd = g_hash_table_contains (compat_fds backend) fd;
          backend = backend\<lparr>compat_fds := AList.delete fd (compat_fds backend)\<rparr>
      in if was_compat_fd then (True, backend, [LockEpoll, UnlockEpoll])
         else (let backend = backend\<lparr>hash_n_poll_records := hash_n_poll_records backend - 1\<rparr>;
                   dummy_ev = \<lparr>epoll_events = 0, epoll_data_fd = 0\<rparr>;
                   (retval, err) = epoll_ctl env (hash_epoll_fd backend) EPOLL_CTL_DEL fd dummy_ev;
                   called = [LockEpoll, UnlockEpoll,
                             EpollCtl (hash_epoll_fd backend) EPOLL_CTL_DEL fd dummy_ev]
               in if retval \<noteq> 0
                  then (False, backend,
                        if err \<noteq> EBADF \<and> err \<noteq> ENOENT \<and> err \<noteq> EPERM
                        then called @ [EpollWarning] else called)
                  else (True, backend, called)))"


definition warnings :: "epoll_call list \<Rightarrow> epoll_call list" where
  "warnings log = filter (\<lambda>c. c = EpollWarning) log"

text \<open>A kernel call among the calls of a list.\<close>

fun kernel_call :: "epoll_call \<Rightarrow> bool" where
  "kernel_call (EpollCtl epfd op fd ev) = True"
| "kernel_call (EpollWait epfd maxevents timeout) = True"
| "kernel_call c = False"

section \<open>A cycle of the portable backend (part_001)\<close>


text \<open>The array behind a pointer; behind \<^verbatim>\<open>NULL\<close> there is none.\<close>

definition array_of :: "GPollFD list option \<Rightarrow> GPollFD list" where
  "array_of p = (case p of None \<Rightarrow> [] | Some a \<Rightarrow> a)"

text \<open>What is written through the pointer \<open>p\<close> is in the array behind it.\<close>

definition written_to :: "GPollFD list option \<Rightarrow> GPollFD list \<Rightarrow> GPollFD list option" where
  "written_to p fds = map_option (\<lambda>a. fds) p"




subsection \<open>Example polling functions and main contexts\<close>




subsection \<open>Example kernels and backends\<close>

text \<open>
  A kernel that refuses the descriptors 5 and 7 with \<^verbatim>\<open>EPERM\<close> (regular files, say) and
  the descriptor 6 with \<^verbatim>\<open>EBADF\<close>, and accepts every other one; its \<^verbatim>\<open>epoll_wait\<close> fails
  with the \<^verbatim>\<open>errno\<close> given.
\<close>

definition refusing_ctl :: "int \<Rightarrow> epoll_op \<Rightarrow> gint \<Rightarrow> epoll_event \<Rightarrow> int \<times> errno" where
  "refusing_ctl epfd op fd ev =
     (if fd = 5 \<or> fd = 7 then (- 1, EPERM) else if fd = 6 then (- 1, EBADF) else (0, 0))"

definition example_env :: "byte_order \<Rightarrow> errno \<Rightarrow> epoll_env" where
  "example_env bo e =
     \<lparr>headers = linux_consts, machine = bo, epoll_ctl = refusing_ctl,
      epoll_wait = (\<lambda>epfd maxevents timeout. (- 1, e, [])), g_poll = idle_poll\<rparr>"

text \<open>
  Backends as \<^verbatim>\<open>g_slice_new0\<close> and the creating function leave them, for the epoll
  descriptor 3; the arrays are not allocated yet.
\<close>

definition new_epoller :: GEpollerData where
  "new_epoller =
     \<lparr>epoll_fd = 3, epoll_n_poll_records = 0,
      epoll_output = (\<lambda>i. \<lparr>epoll_events = 0, epoll_data_fd = 0\<rparr>), epoll_output_size = 0,
      fds_ready = (\<lambda>i. stale), fds_ready_size = 0, n_compat_fds = 0\<rparr>"

definition new_backend :: GEpollLoopBackend where
  "new_backend =
     \<lparr>epoll_fd = 3, epoll_n_poll_records = 0,
      epoll_output = (\<lambda>i. \<lparr>epoll_events = 0, epoll_data_fd = 0\<rparr>), epoll_output_size = 0,
      fds_ready = (\<lambda>i. stale), fds_ready_size = 0, n_compat_fds = 0, epoll_context = 7\<rparr>"

definition new_backend_hash :: GEpollLoopBackend_hash where
  "new_backend_hash =
     \<lparr>hash_context = 7, hash_epoll_fd = 3, hash_n_poll_records = 0,
      hash_epoll_output = (\<lambda>i. \<lparr>epoll_events = 0, epoll_data_fd = 0\<rparr>),
      hash_epoll_output_size = 0,
      hash_fds_ready = (\<lambda>i. stale), hash_fds_ready_size = 0, compat_fds = []\<rparr>"

text \<open>
  The descriptor 5 added with the events 1 and then the descriptor 7 with the events 4: both
  are in the compatibility set.
\<close>

definition two_files :: GEpollLoopBackend where
  "two_files =
     new_backend
       \<lparr>fds_ready := (\<lambda>i. stale)
          (0 := \<lparr>pollfd_fd = 5, pollfd_events = 1, pollfd_revents = 0\<rparr>,
           1 := \<lparr>pollfd_fd = 7, pollfd_events = 4, pollfd_revents = 0\<rparr>),
        fds_ready_size := 2, n_compat_fds := 2\<rparr>"

text \<open>
  The descriptor 5 added \<open>2^32 - 1\<close> times, each time refused by the kernel with
  \<^verbatim>\<open>EPERM\<close>: the array revision keeps an entry for every call.
\<close>

definition full_of_files :: GEpollLoopBackend where
  "full_of_files =
     epoll_adds (example_env G_LITTLE_ENDIAN EINTR) (replicate 4294967295 (5, 1)) new_backend"

definition two_files_epoller :: GEpollerData where
  "two_files_epoller =
     new_epoller
       \<lparr>fds_ready := (\<lambda>i. stale)
          (0 := \<lparr>pollfd_fd = 5, pollfd_events = 1, pollfd_revents = 0\<rparr>,
           1 := \<lparr>pollfd_fd = 7, pollfd_events = 4, pollfd_revents = 0\<rparr>),
        fds_ready_size := 2, n_compat_fds := 2\<rparr>"

definition two_files_hash :: GEpollLoopBackend_hash where
  "two_files_hash = new_backend_hash\<lparr>compat_fds := [(5, 1), (7, 4)]\<rparr>"


section \<open>Properties of the mask translation\<close>

subsection \<open>Bitwise characterisation\<close>

lemma and_flag16_iff_bit: "n < 16 \<Longrightarrow> (w AND (2 ^ n :: gushort) \<noteq> 0) = bit w n"
  by (metis and_exp_eq_0_iff_not_bit)

lemma and_flag32_iff_bit: "n < 32 \<Longrightarrow> (w AND (2 ^ n :: uint32_t) \<noteq> 0) = bit w n"
  by (metis and_exp_eq_0_iff_not_bit)

lemma same_value_flags:
  assumes g: "g < 16" and e: "e < 32"
  shows "same_value (2 ^ g) (2 ^ e) = (g = e)"
proof -
  have widen: "ucast (2 ^ g :: gushort) = (2 ^ g :: uint32_t)"
    by (rule bit_word_eqI) (use g in \<open>auto simp: bit_simps\<close>)
  have "((2 ^ g :: uint32_t) = 2 ^ e) = (g = e)"
  proof
    assume same: "(2 ^ g :: uint32_t) = 2 ^ e"
    have "bit (2 ^ g :: uint32_t) g"
      using g by (simp add: bit_simps)
    then have "bit (2 ^ e :: uint32_t) g"
      using same by simp
    then show "g = e"
      by (simp add: bit_simps)
  qed simp
  with widen show ?thesis
    by (simp add: same_value_def)
qed

lemma bit_common_flag:
  "g < 16 \<Longrightarrow> e < 32 \<Longrightarrow> bit (common_flag (2 ^ g) (2 ^ e)) n = (g = e \<and> n = e)"
  by (auto simp: common_flag_def same_value_flags bit_simps)

lemma bit_from_epoll_flag:
  "g < 16 \<Longrightarrow> e < 32 \<Longrightarrow>
   bit (from_epoll_flag (2 ^ g) (2 ^ e) ev io) n = (bit io n \<or> (g \<noteq> e \<and> bit ev e \<and> n = g))"
  by (auto simp: from_epoll_flag_def same_value_flags and_flag32_iff_bit bit_simps)

lemma bit_to_epoll_flag:
  "g < 16 \<Longrightarrow> e < 32 \<Longrightarrow>
   bit (to_epoll_flag (2 ^ g) (2 ^ e) io em) n = (bit em n \<or> (g \<noteq> e \<and> bit io g \<and> n = e))"
  by (auto simp: to_epoll_flag_def same_value_flags and_flag16_iff_bit bit_simps)

lemma flag_positionsE:
  assumes "flag_positions c gs es"
  obtains gi go gp ge gh ei eo ep ee eh where
    "gs = [gi, go, gp, ge, gh]" "es = [ei, eo, ep, ee, eh]"
proof -
  from assms have "length gs = 5" "length es = 5"
    by (simp_all add: flag_positions_def)
  then obtain gi go gp ge gh ei eo ep ee eh where
    "gs = [gi, go, gp, ge, gh]" "es = [ei, eo, ep, ee, eh]"
    by (auto simp: length_Suc_conv eval_nat_numeral)
  then show thesis ..
qed

lemma bit_to_epoll_events:
  assumes "flag_positions c [gi, go, gp, ge, gh] [ei, eo, ep, ee, eh]"
  shows "bit (g_io_condition_to_epoll_events c m) n =
     ((n = ei \<and> bit m gi) \<or> (n = eo \<and> bit m go) \<or> (n = ep \<and> bit m gp))"
proof -
  from assms have c:
    "G_IO_IN c = 2 ^ gi" "G_IO_OUT c = 2 ^ go" "G_IO_PRI c = 2 ^ gp"
    "EPOLLIN c = 2 ^ ei" "EPOLLOUT c = 2 ^ eo" "EPOLLPRI c = 2 ^ ep"
    and b: "gi < 16" "go < 16" "gp < 16" "ei < 32" "eo < 32" "ep < 32"
    by (simp_all add: flag_positions_def)
  show ?thesis
    unfolding g_io_condition_to_epoll_events_def c
    using b by (simp add: bit_to_epoll_flag bit_common_flag bit_simps) blast
qed

lemma bit_from_epoll_events:
  assumes "flag_positions c [gi, go, gp, ge, gh] [ei, eo, ep, ee, eh]"
  shows "bit (g_io_condition_from_epoll_events c e) n =
     ((n = gi \<and> bit e ei) \<or> (n = go \<and> bit e eo) \<or> (n = gp \<and> bit e ep) \<or>
      (n = ge \<and> bit e ee) \<or> (n = gh \<and> bit e eh))"
proof -
  from assms have c:
    "G_IO_IN c = 2 ^ gi" "G_IO_OUT c = 2 ^ go" "G_IO_PRI c = 2 ^ gp"
    "G_IO_ERR c = 2 ^ ge" "G_IO_HUP c = 2 ^ gh"
    "EPOLLIN c = 2 ^ ei" "EPOLLOUT c = 2 ^ eo" "EPOLLPRI c = 2 ^ ep"
    "EPOLLERR c = 2 ^ ee" "EPOLLHUP c = 2 ^ eh"
    and b: "gi < 16" "go < 16" "gp < 16" "ge < 16" "gh < 16"
      "ei < 32" "eo < 32" "ep < 32" "ee < 32" "eh < 32"
    by (simp_all add: flag_positions_def)
  show ?thesis
    unfolding g_io_condition_from_epoll_events_def c
    using b by (simp add: bit_from_epoll_flag bit_common_flag bit_simps) blast
qed

lemma linux_flag_positions: "flag_positions linux_consts [0, 2, 1, 3, 4] [0, 2, 1, 3, 4]"
  by (simp add: flag_positions_def linux_consts_def)

lemma to_bits:
  assumes fp: "flag_positions c [gi, go, gp, ge, gh] [ei, eo, ep, ee, eh]"
  shows "bit (g_io_condition_to_epoll_events c m) ei = bit m gi"
    and "bit (g_io_condition_to_epoll_events c m) eo = bit m go"
    and "bit (g_io_condition_to_epoll_events c m) ep = bit m gp"
    and "\<not> bit (g_io_condition_to_epoll_events c m) ee"
    and "\<not> bit (g_io_condition_to_epoll_events c m) eh"
proof -
  from fp have d: "distinct [ei, eo, ep, ee, eh]"
    by (simp add: flag_positions_def)
  show "bit (g_io_condition_to_epoll_events c m) ei = bit m gi"
    using d by (auto simp: bit_to_epoll_events [OF fp])
  show "bit (g_io_condition_to_epoll_events c m) eo = bit m go"
    using d by (auto simp: bit_to_epoll_events [OF fp])
  show "bit (g_io_condition_to_epoll_events c m) ep = bit m gp"
    using d by (auto simp: bit_to_epoll_events [OF fp])
  show "\<not> bit (g_io_condition_to_epoll_events c m) ee"
    using d by (auto simp: bit_to_epoll_events [OF fp])
  show "\<not> bit (g_io_condition_to_epoll_events c m) eh"
    using d by (auto simp: bit_to_epoll_events [OF fp])
qed

lemma from_to_epoll_events_id:
  assumes fp: "flag_positions c [gi, go, gp, ge, gh] [ei, eo, ep, ee, eh]"
    and inside: "m AND NOT (G_IO_IN c OR G_IO_OUT c OR G_IO_PRI c) = 0"
  shows "g_io_condition_from_epoll_events c (g_io_condition_to_epoll_events c m) = m"
proof (rule bit_word_eqI)
  fix n
  assume n: "n < LENGTH(16)"
  from fp have c: "G_IO_IN c = 2 ^ gi" "G_IO_OUT c = 2 ^ go" "G_IO_PRI c = 2 ^ gp"
    by (simp_all add: flag_positions_def)
  have "\<not> bit (m AND NOT (G_IO_IN c OR G_IO_OUT c OR G_IO_PRI c)) n"
    using inside by simp
  then have "\<not> bit m n \<or> bit (G_IO_IN c OR G_IO_OUT c OR G_IO_PRI c) n"
    using n by (simp add: bit_simps)
  then have m: "bit m n \<Longrightarrow> n = gi \<or> n = go \<or> n = gp"
    unfolding c by (simp add: bit_simps) blast
  have "bit (g_io_condition_from_epoll_events c (g_io_condition_to_epoll_events c m)) n =
      ((n = gi \<and> bit m gi) \<or> (n = go \<and> bit m go) \<or> (n = gp \<and> bit m gp))"
    by (simp add: bit_from_epoll_events [OF fp] to_bits [OF fp])
  also have "\<dots> = bit m n"
    using m by blast
  finally show "bit (g_io_condition_from_epoll_events c (g_io_condition_to_epoll_events c m)) n = bit m n" .
qed

lemma from_bits:
  assumes fp: "flag_positions c [gi, go, gp, ge, gh] [ei, eo, ep, ee, eh]"
  shows "bit (g_io_condition_from_epoll_events c ev) ge = bit ev ee"
    and "bit (g_io_condition_from_epoll_events c ev) gh = bit ev eh"
proof -
  from fp have d: "distinct [gi, go, gp, ge, gh]"
    by (simp add: flag_positions_def)
  show "bit (g_io_condition_from_epoll_events c ev) ge = bit ev ee"
    using d by (auto simp: bit_from_epoll_events [OF fp])
  show "bit (g_io_condition_from_epoll_events c ev) gh = bit ev eh"
    using d by (auto simp: bit_from_epoll_events [OF fp])
qed

lemma to_epoll_drops_err_hup:
  assumes fp: "flag_positions c [gi, go, gp, ge, gh] [ei, eo, ep, ee, eh]"
  shows "g_io_condition_to_epoll_events c io AND (EPOLLERR c OR EPOLLHUP c) = 0"
proof (rule bit_word_eqI)
  fix n
  assume "n < LENGTH(32)"
  from fp have c: "EPOLLERR c = 2 ^ ee" "EPOLLHUP c = 2 ^ eh"
    by (simp_all add: flag_positions_def)
  have "bit (g_io_condition_to_epoll_events c io AND (EPOLLERR c OR EPOLLHUP c)) n =
      (bit (g_io_condition_to_epoll_events c io) n \<and> (n = ee \<or> n = eh) \<and> n < 32)"
    unfolding c by (auto simp: bit_simps)
  also have "\<dots> = False"
    using to_bits(4,5) [OF fp, of io] by blast
  finally show "bit (g_io_condition_to_epoll_events c io AND (EPOLLERR c OR EPOLLHUP c)) n =
      bit (0 :: uint32_t) n"
    by simp
qed

subsection \<open>Round trip of the translation\<close>

text \<open>
  Claim C10. For every portable event mask \<open>m\<close> whose set bits are among
  \<^verbatim>\<open>G_IO_IN\<close>, \<^verbatim>\<open>G_IO_OUT\<close> and \<^verbatim>\<open>G_IO_PRI\<close>, translating it with
  \<^verbatim>\<open>g_io_condition_to_epoll_events\<close> and back with \<^verbatim>\<open>g_io_condition_from_epoll_events\<close>
  yields \<open>m\<close>. The translation to epoll never sets \<^verbatim>\<open>EPOLLERR\<close> or \<^verbatim>\<open>EPOLLHUP\<close>,
  whatever the portable mask \<open>io\<close> holds; the translation from epoll reports
  \<^verbatim>\<open>G_IO_ERR\<close> exactly when \<^verbatim>\<open>EPOLLERR\<close> is set and \<^verbatim>\<open>G_IO_HUP\<close> exactly when
  \<^verbatim>\<open>EPOLLHUP\<close> is set. This holds for any values of the constants that are single-bit
  flags at distinct positions.
\<close>

theorem io_condition_translation:
  assumes "flag_positions c gs es"
  shows "(m AND NOT (G_IO_IN c OR G_IO_OUT c OR G_IO_PRI c) = 0 \<longrightarrow>
            g_io_condition_from_epoll_events c (g_io_condition_to_epoll_events c m) = m) \<and>
         g_io_condition_to_epoll_events c io AND (EPOLLERR c OR EPOLLHUP c) = 0 \<and>
         (g_io_condition_from_epoll_events c ev AND G_IO_ERR c \<noteq> 0) = (ev AND EPOLLERR c \<noteq> 0) \<and>
         (g_io_condition_from_epoll_events c ev AND G_IO_HUP c \<noteq> 0) = (ev AND EPOLLHUP c \<noteq> 0)"
proof -
  from assms obtain gi go gp ge gh ei eo ep ee eh where
    gs: "gs = [gi, go, gp, ge, gh]" and es: "es = [ei, eo, ep, ee, eh]"
    by (rule flag_positionsE)
  from assms have fp: "flag_positions c [gi, go, gp, ge, gh] [ei, eo, ep, ee, eh]"
    by (simp add: gs es)
  from fp have c: "G_IO_ERR c = 2 ^ ge" "G_IO_HUP c = 2 ^ gh" "EPOLLERR c = 2 ^ ee" "EPOLLHUP c = 2 ^ eh"
    and b: "ge < 16" "gh < 16" "ee < 32" "eh < 32"
    by (simp_all add: flag_positions_def)
  have err: "(g_io_condition_from_epoll_events c ev AND G_IO_ERR c \<noteq> 0) = (ev AND EPOLLERR c \<noteq> 0)"
    unfolding c using b by (simp only: and_flag16_iff_bit and_flag32_iff_bit from_bits [OF fp])
  have hup: "(g_io_condition_from_epoll_events c ev AND G_IO_HUP c \<noteq> 0) = (ev AND EPOLLHUP c \<noteq> 0)"
    unfolding c using b by (simp only: and_flag16_iff_bit and_flag32_iff_bit from_bits [OF fp])
  from from_to_epoll_events_id [OF fp] to_epoll_drops_err_hup [OF fp] err hup show ?thesis
    by blast
qed

theorem io_condition_translation_witness:
  "flag_positions linux_consts [0, 2, 1, 3, 4] [0, 2, 1, 3, 4] \<and>
   (5 :: gushort) AND NOT (G_IO_IN linux_consts OR G_IO_OUT linux_consts OR G_IO_PRI linux_consts) = 0 \<and>
   g_io_condition_from_epoll_events linux_consts (g_io_condition_to_epoll_events linux_consts 5) = 5 \<and>
   g_io_condition_to_epoll_events linux_consts 31 AND (EPOLLERR linux_consts OR EPOLLHUP linux_consts) = 0 \<and>
   (g_io_condition_from_epoll_events linux_consts 24 AND G_IO_ERR linux_consts \<noteq> 0) =
     (24 AND EPOLLERR linux_consts \<noteq> 0) \<and>
   (g_io_condition_from_epoll_events linux_consts 24 AND G_IO_HUP linux_consts \<noteq> 0) =
     (24 AND EPOLLHUP linux_consts \<noteq> 0)"
proof -
  have inside: "(5 :: gushort) AND NOT (G_IO_IN linux_consts OR G_IO_OUT linux_consts OR G_IO_PRI linux_consts) = 0"
    by (simp add: linux_consts_def)
  show ?thesis
    using io_condition_translation [OF linux_flag_positions, of 5 31 24] inside linux_flag_positions
    by blast
qed


section \<open>Properties of the event context\<close>

subsection \<open>Counting references\<close>

lemma sint_inc:
  fixes c :: gint
  assumes "0 < sint c" "sint c < 2 ^ 31 - 1"
  shows "sint (c + 1) = sint c + 1"
  using assms
  by (simp add: sint_word_add signed_take_bit_int_eq_self)

lemma sint_dec:
  fixes c :: gint
  assumes "0 < sint c"
  shows "sint (c - 1) = sint c - 1"
proof -
  have "sint c < 2 ^ 31"
    using sint_lt [of c] by simp
  with assms show ?thesis
    by (simp add: sint_word_diff signed_take_bit_int_eq_self)
qed

lemma dec_and_test:
  fixes c :: gint
  assumes "0 < sint c"
  shows "(c - 1 = 0) = (sint c = 1)"
proof -
  have "(c - 1 = 0) = (sint (c - 1) = 0)"
    by (simp add: signed_eq_0_iff)
  also have "\<dots> = (sint c = 1)"
    using sint_dec [OF assms] by simp
  finally show ?thesis .
qed

lemma set_ref_count_same:
  "contexts w c = Some priv \<Longrightarrow> set_ref_count c (ref_count priv) w = w"
  by (simp add: set_ref_count_def fun_upd_idem)

lemma set_ref_count_twice [simp]:
  "set_ref_count c v (set_ref_count c u w) = set_ref_count c v w"
  by (simp add: set_ref_count_def option.map_comp comp_def)

lemma contexts_set_ref_count:
  "contexts w c = Some priv \<Longrightarrow>
   contexts (set_ref_count c v w) c = Some (priv\<lparr>ref_count := v\<rparr>)"
  by (simp add: set_ref_count_def)

lemma trace_set_ref_count [simp]: "trace (set_ref_count c v w) = trace w"
  by (simp add: set_ref_count_def)

lemma ref_live:
  assumes "contexts w c = Some priv" "0 < sint (ref_count priv)"
  shows "g_event_context_ref (Some c) w = Inr (Some c, set_ref_count c (ref_count priv + 1) w)"
  using assms by (simp add: g_event_context_ref_def set_ref_count_def)

lemma unref_live:
  assumes "contexts w c = Some priv" "1 < sint (ref_count priv)"
  shows "g_event_context_unref (Some c) w = Inr (set_ref_count c (ref_count priv - 1) w)"
  using assms dec_and_test [of "ref_count priv"]
  by (simp add: g_event_context_unref_def set_ref_count_def)

lemma unref_last:
  assumes "contexts w c = Some priv" "sint (ref_count priv) = 1"
  shows "g_event_context_unref (Some c) w = Inr (finalized (funcs priv) c w)"
  using assms dec_and_test [of "ref_count priv"]
  by (simp add: g_event_context_unref_def finalized_def)

lemma unref_dead:
  assumes "contexts w c = Some priv" "\<not> 0 < sint (ref_count priv)"
  shows "g_event_context_unref (Some c) w = Inr (log_event [Critical] w)"
  using assms by (simp add: g_event_context_unref_def)

lemma refs_run:
  assumes "contexts w c = Some priv" "0 < sint (ref_count priv)"
    "sint (ref_count priv) + int n < 2 ^ 31"
  shows "ref_calls c (replicate n Ref @ rest) w =
     ref_calls c rest (set_ref_count c (ref_count priv + of_nat n) w)"
  using assms
proof (induction n arbitrary: w priv)
  case 0
  then show ?case
    by (simp add: set_ref_count_same)
next
  case (Suc n)
  let ?w = "set_ref_count c (ref_count priv + 1) w"
  let ?p = "priv\<lparr>ref_count := ref_count priv + 1\<rparr>"
  have step: "sint (ref_count priv + 1) = sint (ref_count priv) + 1"
    using Suc.prems by (intro sint_inc) simp_all
  have live: "contexts ?w c = Some ?p"
    using Suc.prems(1) by (rule contexts_set_ref_count)
  have "ref_calls c (replicate (Suc n) Ref @ rest) w = ref_calls c (replicate n Ref @ rest) ?w"
    using Suc.prems by (simp add: ref_live)
  also have "\<dots> = ref_calls c rest (set_ref_count c (ref_count ?p + of_nat n) ?w)"
    using Suc.prems step by (intro Suc.IH [OF live]) simp_all
  also have "set_ref_count c (ref_count ?p + of_nat n) ?w =
      set_ref_count c (ref_count priv + of_nat (Suc n)) w"
    by (simp add: add.assoc)
  finally show ?case .
qed

lemma unrefs_run:
  assumes "contexts w c = Some priv" "int j < sint (ref_count priv)"
  shows "ref_calls c (replicate j Unref @ rest) w =
     ref_calls c rest (set_ref_count c (ref_count priv - of_nat j) w)"
  using assms
proof (induction j arbitrary: w priv)
  case 0
  then show ?case
    by (simp add: set_ref_count_same)
next
  case (Suc j)
  let ?w = "set_ref_count c (ref_count priv - 1) w"
  let ?p = "priv\<lparr>ref_count := ref_count priv - 1\<rparr>"
  have step: "sint (ref_count priv - 1) = sint (ref_count priv) - 1"
    using Suc.prems by (intro sint_dec) simp
  have live: "contexts ?w c = Some ?p"
    using Suc.prems(1) by (rule contexts_set_ref_count)
  have "ref_calls c (replicate (Suc j) Unref @ rest) w = ref_calls c (replicate j Unref @ rest) ?w"
    using Suc.prems by (simp add: unref_live)
  also have "\<dots> = ref_calls c rest (set_ref_count c (ref_count ?p - of_nat j) ?w)"
    using Suc.prems step by (intro Suc.IH [OF live]) simp_all
  also have "set_ref_count c (ref_count ?p - of_nat j) ?w =
      set_ref_count c (ref_count priv - of_nat (Suc j)) w"
    by (simp add: algebra_simps)
  finally show ?case .
qed

lemma log_event_append: "log_event es (log_event ds w) = log_event (ds @ es) w"
  by (simp add: log_event_def)

lemma contexts_log_event [simp]: "contexts (log_event es w) = contexts w"
  by (simp add: log_event_def)

lemma unrefs_dead_run:
  assumes "contexts w c = Some priv" "\<not> 0 < sint (ref_count priv)"
  shows "ref_calls c (replicate n Unref @ rest) w =
     ref_calls c rest (log_event (replicate n Critical) w)"
  using assms
proof (induction n arbitrary: w)
  case 0
  then show ?case
    by (simp add: log_event_def)
next
  case (Suc n)
  have "ref_calls c (replicate (Suc n) Unref @ rest) w =
      ref_calls c (replicate n Unref @ rest) (log_event [Critical] w)"
    using Suc.prems by (simp add: unref_dead)
  also have "\<dots> = ref_calls c rest (log_event (replicate n Critical) (log_event [Critical] w))"
    using Suc.prems by (intro Suc.IH) simp_all
  finally show ?case
    by (simp add: log_event_append)
qed

lemma finalize_calls_set_ref_count [simp]:
  "finalize_calls c (set_ref_count c' v w) = finalize_calls c w"
  by (simp add: finalize_calls_def)

lemma finalize_calls_finalized [simp]:
  "finalize_calls c (finalized fs c w) = Suc (finalize_calls c w)"
  by (simp add: finalize_calls_def finalized_def)

lemma finalize_calls_criticals [simp]:
  "finalize_calls c (log_event (replicate n Critical) w) = finalize_calls c w"
  by (simp add: finalize_calls_def log_event_def)

lemma new_custom_world:
  "fst (g_event_context_new_custom fs sz w) = Some (fresh w)"
  "contexts (snd (g_event_context_new_custom fs sz w)) (fresh w) =
     Some \<lparr>funcs = fs, struct_size = sz, ref_count = 1\<rparr>"
  "finalize_calls c (snd (g_event_context_new_custom fs sz w)) = finalize_calls c w"
  by (simp_all add: g_event_context_new_custom_def finalize_calls_def Let_def)

lemma gint_of_nat:
  "n < 2 ^ 31 \<Longrightarrow> sint (of_nat n :: gint) = int n"
  by (simp add: signed_of_nat signed_take_bit_int_eq_self)

text \<open>
  Claim C1, as amended. A context created by \<^verbatim>\<open>g_event_context_new_custom\<close> (or by
  \<^verbatim>\<open>g_event_context_new\<close> of \<^verbatim>\<open>gevent.c\<close>, which is the same function) starts with
  reference count 1. As long as the count stays within the range of a \<^verbatim>\<open>gint\<close>, that is
  for \<open>N < 2^31 - 1\<close> calls of \<^verbatim>\<open>g_event_context_ref\<close>, every ref adds one and every
  unref subtracts one: after \<open>N\<close> refs and \<open>j \<le> N\<close> unrefs the count is \<open>1 + N - j\<close> and
  \<^verbatim>\<open>finalize\<close> has not been called; after \<open>N\<close> refs and \<open>N + 1\<close> unrefs \<^verbatim>\<open>finalize\<close> has
  been called exactly once, by the last unref, and the context is freed.
\<close>

theorem refcount_law:
  assumes "N < 2 ^ 31 - 1" and "j \<le> N"
  shows "fst (g_event_context_new_custom fs sz w) = Some (fresh w) \<and>
    g_event_context_new_gevent_c fs sz w = g_event_context_new_custom fs sz w \<and>
    map_option ref_count (contexts (snd (g_event_context_new_custom fs sz w)) (fresh w)) = Some 1 \<and>
    ref_calls (fresh w) (replicate N Ref @ replicate j Unref) (snd (g_event_context_new_custom fs sz w)) =
      Inr (set_ref_count (fresh w) (of_nat (1 + N - j)) (snd (g_event_context_new_custom fs sz w))) \<and>
    sint (of_nat (1 + N - j) :: gint) = 1 + int N - int j \<and>
    finalize_calls (fresh w)
      (set_ref_count (fresh w) (of_nat (1 + N - j)) (snd (g_event_context_new_custom fs sz w))) =
      finalize_calls (fresh w) w \<and>
    ref_calls (fresh w) (replicate N Ref @ replicate (Suc N) Unref) (snd (g_event_context_new_custom fs sz w)) =
      Inr (finalized fs (fresh w) (snd (g_event_context_new_custom fs sz w))) \<and>
    contexts (finalized fs (fresh w) (snd (g_event_context_new_custom fs sz w))) (fresh w) = None \<and>
    finalize_calls (fresh w) (finalized fs (fresh w) (snd (g_event_context_new_custom fs sz w))) =
      Suc (finalize_calls (fresh w) w)"
proof -
  let ?c = "fresh w"
  let ?w0 = "snd (g_event_context_new_custom fs sz w)"
  let ?p0 = "\<lparr>funcs = fs, struct_size = sz, ref_count = 1\<rparr>"
  let ?wN = "set_ref_count ?c (1 + of_nat N) ?w0"
  have live0: "contexts ?w0 ?c = Some ?p0"
    by (rule new_custom_world(2))
  have liveN: "contexts ?wN ?c = Some (?p0\<lparr>ref_count := 1 + of_nat N\<rparr>)"
    using live0 by (rule contexts_set_ref_count)
  have countN: "sint (1 + of_nat N :: gint) = 1 + int N"
    using assms(1) gint_of_nat [of "Suc N"] by simp
  have refs: "ref_calls ?c (replicate N Ref @ rest) ?w0 = ref_calls ?c rest ?wN" for rest
    using refs_run [OF live0, of N rest] assms(1) by simp
  have unrefs: "ref_calls ?c (replicate i Unref @ rest) ?wN =
      ref_calls ?c rest (set_ref_count ?c (1 + of_nat N - of_nat i) ?w0)" if "i \<le> N" for i rest
    using unrefs_run [OF liveN, of i rest] countN that by simp
  have part: "ref_calls ?c (replicate N Ref @ replicate j Unref) ?w0 =
      Inr (set_ref_count ?c (of_nat (1 + N - j)) ?w0)"
    using refs [of "replicate j Unref"] unrefs [OF assms(2), of "[]"] assms(2)
    by (simp add: of_nat_diff)
  have "replicate (Suc N) Unref = replicate N Unref @ [Unref]"
    by (simp add: replicate_append_same)
  then have "ref_calls ?c (replicate N Ref @ replicate (Suc N) Unref) ?w0 =
      ref_calls ?c [Unref] (set_ref_count ?c 1 ?w0)"
    using refs [of "replicate (Suc N) Unref"] unrefs [of N "[Unref]"] by simp
  also have "set_ref_count ?c 1 ?w0 = ?w0"
    using set_ref_count_same [OF live0] by simp
  also have "ref_calls ?c [Unref] ?w0 = Inr (finalized fs ?c ?w0)"
    using unref_last [OF live0] by simp
  finally have all: "ref_calls ?c (replicate N Ref @ replicate (Suc N) Unref) ?w0 =
      Inr (finalized fs ?c ?w0)" .
  have value_j: "sint (of_nat (1 + N - j) :: gint) = 1 + int N - int j"
    using assms gint_of_nat [of "1 + N - j"] by (simp add: of_nat_diff)
  have same: "g_event_context_new_gevent_c fs sz w = g_event_context_new_custom fs sz w"
    by (simp add: g_event_context_new_gevent_c_def g_event_context_new_custom_def)
  have freed: "contexts (finalized fs ?c ?w0) ?c = None"
    by (simp add: finalized_def)
  show ?thesis
    using part all value_j same freed live0
    by (simp add: new_custom_world(1,3))
qed

theorem refcount_law_witness:
  "(2 :: nat) < 2 ^ 31 - 1 \<and> (1 :: nat) \<le> 2 \<and>
   fst (g_event_context_new_custom 7 16 initial_world) = Some 0 \<and>
   ref_calls 0 [Ref, Ref, Unref] (snd (g_event_context_new_custom 7 16 initial_world)) =
     Inr (set_ref_count 0 2 (snd (g_event_context_new_custom 7 16 initial_world))) \<and>
   ref_calls 0 [Ref, Ref, Unref, Unref, Unref] (snd (g_event_context_new_custom 7 16 initial_world)) =
     Inr (finalized 7 0 (snd (g_event_context_new_custom 7 16 initial_world))) \<and>
   finalize_calls 0 (finalized 7 0 (snd (g_event_context_new_custom 7 16 initial_world))) = 1"
proof -
  have fresh0: "fresh initial_world = 0" and none: "finalize_calls 0 initial_world = 0"
    by (simp_all add: initial_world_def finalize_calls_def)
  have lists: "replicate 2 Ref @ replicate 1 Unref = [Ref, Ref, Unref]"
    "replicate 2 Ref @ replicate (Suc 2) Unref = [Ref, Ref, Unref, Unref, Unref]"
    by (simp_all add: numeral_2_eq_2)
  have "(2 :: nat) < 2 ^ 31 - 1" "(1 :: nat) \<le> 2"
    by simp_all
  from refcount_law [OF this, of 7 16 initial_world] show ?thesis
    unfolding lists fresh0 none by simp
qed

text \<open>
  Without the bound the law fails: the count is a 32-bit \<^verbatim>\<open>gint\<close>. After \<open>2^31 - 1\<close> refs
  it has wrapped around to \<open>-2^31\<close>; each of the \<open>2^31\<close> unrefs that follow fails the
  \<^verbatim>\<open>ref_count > 0\<close> check, logs a critical warning and returns, so \<^verbatim>\<open>finalize\<close> is never
  called.
\<close>

lemma overflow_run:
  assumes live: "contexts w c = Some priv" and one: "ref_count priv = 1"
  shows "ref_calls c (replicate (2 ^ 31 - 1) Ref @ replicate m Unref) w =
     Inr (log_event (replicate m Critical) (set_ref_count c 2147483648 w))"
proof -
  let ?n = "2 ^ 31 - 2 :: nat"
  let ?w1 = "set_ref_count c 2147483647 w"
  let ?w2 = "set_ref_count c 2147483648 w"
  have split: "replicate (2 ^ 31 - 1) Ref = replicate ?n Ref @ [Ref]"
  proof -
    have "(2 ^ 31 - 1 :: nat) = Suc ?n"
      by simp
    then show ?thesis
      by (simp only: replicate_append_same [symmetric] replicate_Suc)
  qed
  have top: "(1 :: gint) + of_nat ?n = 2147483647"
    by simp
  have "ref_calls c (replicate ?n Ref @ ([Ref] @ replicate m Unref)) w =
      ref_calls c ([Ref] @ replicate m Unref) (set_ref_count c (ref_count priv + of_nat ?n) w)"
    using live one by (intro refs_run) simp_all
  then have "ref_calls c (replicate (2 ^ 31 - 1) Ref @ replicate m Unref) w =
      ref_calls c (Ref # replicate m Unref) ?w1"
    unfolding split one top by simp
  also have "\<dots> = ref_calls c (replicate m Unref @ []) ?w2"
    using ref_live [OF contexts_set_ref_count [OF live], of 2147483647] by simp
  also have "\<dots> = ref_calls c [] (log_event (replicate m Critical) ?w2)"
  proof (rule unrefs_dead_run)
    show "contexts ?w2 c = Some (priv\<lparr>ref_count := 2147483648\<rparr>)"
      using live by (rule contexts_set_ref_count)
    have "sint (2147483648 :: gint) = - 2147483648"
      by simp
    then show "\<not> 0 < sint (ref_count (priv\<lparr>ref_count := 2147483648\<rparr>))"
      by simp
  qed
  finally show ?thesis
    by simp
qed

theorem refcount_law_counterexample:
  "ref_calls 0 (replicate (2 ^ 31 - 1) Ref @ replicate (Suc (2 ^ 31 - 1)) Unref)
      (snd (g_event_context_new_custom 7 16 initial_world)) =
     Inr (log_event (replicate (Suc (2 ^ 31 - 1)) Critical)
           (set_ref_count 0 2147483648 (snd (g_event_context_new_custom 7 16 initial_world)))) \<and>
   finalize_calls 0
     (log_event (replicate (Suc (2 ^ 31 - 1)) Critical)
       (set_ref_count 0 2147483648 (snd (g_event_context_new_custom 7 16 initial_world)))) = 0"
proof -
  have fresh0: "fresh initial_world = 0" and none: "finalize_calls 0 initial_world = 0"
    by (simp_all add: initial_world_def finalize_calls_def)
  have live: "contexts (snd (g_event_context_new_custom 7 16 initial_world)) 0 =
      Some \<lparr>funcs = 7, struct_size = 16, ref_count = 1\<rparr>"
    using new_custom_world(2) [of 7 16 initial_world] by (simp only: fresh0)
  have run: "ref_calls 0 (replicate (2 ^ 31 - 1) Ref @ replicate (Suc (2 ^ 31 - 1)) Unref)
      (snd (g_event_context_new_custom 7 16 initial_world)) =
     Inr (log_event (replicate (Suc (2 ^ 31 - 1)) Critical)
           (set_ref_count 0 2147483648 (snd (g_event_context_new_custom 7 16 initial_world))))"
    using live by (rule overflow_run) simp
  have "finalize_calls 0
     (log_event (replicate (Suc (2 ^ 31 - 1)) Critical)
       (set_ref_count 0 2147483648 (snd (g_event_context_new_custom 7 16 initial_world)))) = 0"
    by (simp only: finalize_calls_criticals finalize_calls_set_ref_count new_custom_world(3) none)
  with run show ?thesis
    by (rule conjI)
qed

subsection \<open>Adding and removing poll records through the handle\<close>

lemma default_first:
  assumes "\<not> initialised w"
  shows "g_event_context_default True w =
     (Some (fresh w),
      w\<lparr>contexts := (contexts w)(fresh w \<mapsto>
            \<lparr>funcs = epoll_funcs, struct_size = epoll_size, ref_count = 1\<rparr>),
        fresh := Suc (fresh w),
        trace := trace w @ [MutexInit (fresh w)],
        default_event_context := Some (fresh w),
        initialised := True\<rparr>)"
  using assms
  by (simp add: g_event_context_default_def g_event_context_new_def
      g_epoll_event_context_new_def g_event_context_new_gevent_c_def Let_def)

text \<open>
  When \<^verbatim>\<open>epoll_create\<close> fails, the default context is \<^verbatim>\<open>NULL\<close> for good, and a call with
  a null handle dereferences it.
\<close>

lemma default_first_failed:
  assumes "\<not> initialised w"
  shows "g_event_context_default False w =
     (None,
      w\<lparr>contexts := (contexts w)(fresh w := None),
        fresh := Suc (fresh w),
        trace := trace w @ [MutexInit (fresh w), Critical],
        leaked := leaked w @ [fresh w],
        default_event_context := None,
        initialised := True\<rparr>)"
  using assms
  by (simp add: g_event_context_default_def g_event_context_new_def
      g_epoll_event_context_new_def g_event_context_new_gevent_c_def Let_def)

lemma add_poll_null_failed:
  assumes "\<not> initialised w"
  shows "g_event_context_add_poll False None pfd w = Inl NullDereference"
    "g_event_context_remove_poll False None pfd w = Inl NullDereference"
  unfolding g_event_context_add_poll_def g_event_context_remove_poll_def
    default_first_failed [OF assms]
  by (simp_all add: g_event_context_add_poll_gevent_c_def g_event_context_remove_poll_gevent_c_def)

lemma default_again:
  assumes "initialised w"
  shows "g_event_context_default epoll_ok w = (default_event_context w, w)"
  using assms by (simp add: g_event_context_default_def)

lemma default_initialises: "initialised (snd (g_event_context_default epoll_ok w))"
  by (simp add: g_event_context_default_def Let_def split: prod.split)

lemma default_returns_stored:
  "fst (g_event_context_default epoll_ok w) =
   default_event_context (snd (g_event_context_default epoll_ok w))"
  by (simp add: g_event_context_default_def Let_def split: prod.split)

lemma default_once:
  "g_event_context_default ok_later (snd (g_event_context_default ok1 w)) =
   g_event_context_default ok1 w"
  using default_again [OF default_initialises, of ok_later ok1 w] default_returns_stored [of ok1 w]
  by (simp add: prod_eq_iff)

lemma add_poll_gevent_c_live:
  assumes "contexts w c = Some priv" "0 < sint (ref_count priv)"
  shows "g_event_context_add_poll_gevent_c (Some c) (Some p) w =
     Inr (log_event [MutexLock c, FuncsAddPoll (funcs priv) c p, MutexUnlock c] w)"
  using assms by (simp add: g_event_context_add_poll_gevent_c_def)

lemma remove_poll_gevent_c_live:
  assumes "contexts w c = Some priv" "0 < sint (ref_count priv)"
  shows "g_event_context_remove_poll_gevent_c (Some c) (Some p) w =
     Inr (log_event [MutexLock c, FuncsRemovePoll (funcs priv) c p, MutexUnlock c] w)"
  using assms by (simp add: g_event_context_remove_poll_gevent_c_def)

lemma add_poll_null_first:
  assumes "\<not> initialised w"
  shows "g_event_context_add_poll True None (Some p) w =
     Inr (log_event [MutexLock (fresh w), FuncsAddPoll epoll_funcs (fresh w) p, MutexUnlock (fresh w)]
           (snd (g_event_context_default True w)))"
  unfolding g_event_context_add_poll_def default_first [OF assms]
  by (simp add: add_poll_gevent_c_live)

lemma remove_poll_null_first:
  assumes "\<not> initialised w"
  shows "g_event_context_remove_poll True None (Some p) w =
     Inr (log_event [MutexLock (fresh w), FuncsRemovePoll epoll_funcs (fresh w) p, MutexUnlock (fresh w)]
           (snd (g_event_context_default True w)))"
  unfolding g_event_context_remove_poll_def default_first [OF assms]
  by (simp add: remove_poll_gevent_c_live)

lemma default_first_live:
  assumes "\<not> initialised w"
  shows "contexts (snd (g_event_context_default True w)) (fresh w) =
      Some \<lparr>funcs = epoll_funcs, struct_size = epoll_size, ref_count = 1\<rparr>"
    "initialised (snd (g_event_context_default True w))"
    "default_event_context (snd (g_event_context_default True w)) = Some (fresh w)"
  by (simp_all add: default_first [OF assms])

lemma add_poll_null_again:
  assumes "initialised w" "default_event_context w = Some c"
    and "contexts w c = Some priv" "0 < sint (ref_count priv)"
  shows "g_event_context_add_poll epoll_ok None (Some p) w =
       Inr (log_event [MutexLock c, FuncsAddPoll (funcs priv) c p, MutexUnlock c] w)"
    "g_event_context_remove_poll epoll_ok None (Some p) w =
       Inr (log_event [MutexLock c, FuncsRemovePoll (funcs priv) c p, MutexUnlock c] w)"
  using assms
  by (simp_all add: g_event_context_add_poll_def g_event_context_remove_poll_def
      default_again add_poll_gevent_c_live remove_poll_gevent_c_live)

text \<open>
  Claim C9, as amended, for the revision of part_000 and, for a handle that is given, for
  both revisions. The descriptor pointer is non-null throughout.

  With a handle \<open>c\<close> of a live context (reference count above zero), in both revisions
  \<^verbatim>\<open>_g_event_context_add_poll\<close> and \<^verbatim>\<open>_g_event_context_remove_poll\<close> lock its mutex, call
  the vtable's \<^verbatim>\<open>add_poll\<close>/\<^verbatim>\<open>remove_poll\<close> and unlock, and do nothing else. With a null
  handle, when the default context exists already and is the live context \<open>c\<close>, the same
  sequence runs on \<open>c\<close> and nothing is constructed.

  With a null handle at first use, in any world in which \<^verbatim>\<open>g_event_context_default\<close> has
  not run yet, also one with no context at all, and when \<^verbatim>\<open>epoll_create\<close> succeeds: the
  default context is constructed at the fresh address with reference count 1 and stored,
  the one-time flag is set, and the sequence runs on the new context. A later call with a
  null handle, whatever \<^verbatim>\<open>epoll_create\<close> would do then, runs the sequence on that same
  context and constructs nothing.

  In any world \<^verbatim>\<open>g_event_context_default\<close> leaves the one-time flag set, and a second call
  returns what the first returned and changes nothing. (The revision of
  \<^verbatim>\<open>src/glib/gevent.c\<close> has no default context and is left out for the null handle.)
\<close>

theorem poll_calls_lock_delegate_unlock:
  "(contexts w c = Some priv \<and> 0 < sint (ref_count priv) \<longrightarrow>
      g_event_context_add_poll epoll_ok (Some c) (Some p) w =
        Inr (log_event [MutexLock c, FuncsAddPoll (funcs priv) c p, MutexUnlock c] w) \<and>
      g_event_context_remove_poll epoll_ok (Some c) (Some p) w =
        Inr (log_event [MutexLock c, FuncsRemovePoll (funcs priv) c p, MutexUnlock c] w) \<and>
      g_event_context_add_poll_gevent_c (Some c) (Some p) w =
        Inr (log_event [MutexLock c, FuncsAddPoll (funcs priv) c p, MutexUnlock c] w) \<and>
      g_event_context_remove_poll_gevent_c (Some c) (Some p) w =
        Inr (log_event [MutexLock c, FuncsRemovePoll (funcs priv) c p, MutexUnlock c] w) \<and>
      (initialised w \<and> default_event_context w = Some c \<longrightarrow>
         g_event_context_add_poll epoll_ok None (Some p) w =
           Inr (log_event [MutexLock c, FuncsAddPoll (funcs priv) c p, MutexUnlock c] w) \<and>
         g_event_context_remove_poll epoll_ok None (Some p) w =
           Inr (log_event [MutexLock c, FuncsRemovePoll (funcs priv) c p, MutexUnlock c] w))) \<and>
   (\<not> initialised w \<longrightarrow>
      g_event_context_default True w =
        (Some (fresh w),
         w\<lparr>contexts := (contexts w)(fresh w \<mapsto>
               \<lparr>funcs = epoll_funcs, struct_size = epoll_size, ref_count = 1\<rparr>),
           fresh := Suc (fresh w),
           trace := trace w @ [MutexInit (fresh w)],
           default_event_context := Some (fresh w),
           initialised := True\<rparr>) \<and>
      g_event_context_add_poll True None (Some p) w =
        Inr (log_event
              [MutexLock (fresh w), FuncsAddPoll epoll_funcs (fresh w) p, MutexUnlock (fresh w)]
              (snd (g_event_context_default True w))) \<and>
      g_event_context_remove_poll True None (Some p) w =
        Inr (log_event
              [MutexLock (fresh w), FuncsRemovePoll epoll_funcs (fresh w) p, MutexUnlock (fresh w)]
              (snd (g_event_context_default True w))) \<and>
      g_event_context_add_poll ok_later None (Some q) (snd (g_event_context_default True w)) =
        Inr (log_event
              [MutexLock (fresh w), FuncsAddPoll epoll_funcs (fresh w) q, MutexUnlock (fresh w)]
              (snd (g_event_context_default True w))) \<and>
      g_event_context_remove_poll ok_later None (Some q) (snd (g_event_context_default True w)) =
        Inr (log_event
              [MutexLock (fresh w), FuncsRemovePoll epoll_funcs (fresh w) q, MutexUnlock (fresh w)]
              (snd (g_event_context_default True w)))) \<and>
   initialised (snd (g_event_context_default epoll_ok w)) \<and>
   g_event_context_default ok_later (snd (g_event_context_default epoll_ok w)) =
     g_event_context_default epoll_ok w"
proof (intro conjI impI)
  assume live: "contexts w c = Some priv \<and> 0 < sint (ref_count priv)"
  then have c: "contexts w c = Some priv" "0 < sint (ref_count priv)"
    by simp_all
  note run = add_poll_gevent_c_live [OF c] remove_poll_gevent_c_live [OF c]
  show "g_event_context_add_poll epoll_ok (Some c) (Some p) w =
      Inr (log_event [MutexLock c, FuncsAddPoll (funcs priv) c p, MutexUnlock c] w)"
    by (simp add: g_event_context_add_poll_def run)
  show "g_event_context_remove_poll epoll_ok (Some c) (Some p) w =
      Inr (log_event [MutexLock c, FuncsRemovePoll (funcs priv) c p, MutexUnlock c] w)"
    by (simp add: g_event_context_remove_poll_def run)
  show "g_event_context_add_poll_gevent_c (Some c) (Some p) w =
      Inr (log_event [MutexLock c, FuncsAddPoll (funcs priv) c p, MutexUnlock c] w)"
    by (rule run)
  show "g_event_context_remove_poll_gevent_c (Some c) (Some p) w =
      Inr (log_event [MutexLock c, FuncsRemovePoll (funcs priv) c p, MutexUnlock c] w)"
    by (rule run)
  assume stored: "initialised w \<and> default_event_context w = Some c"
  then have d: "initialised w" "default_event_context w = Some c"
    by simp_all
  show "g_event_context_add_poll epoll_ok None (Some p) w =
      Inr (log_event [MutexLock c, FuncsAddPoll (funcs priv) c p, MutexUnlock c] w)"
    by (rule add_poll_null_again [OF d c])
  show "g_event_context_remove_poll epoll_ok None (Some p) w =
      Inr (log_event [MutexLock c, FuncsRemovePoll (funcs priv) c p, MutexUnlock c] w)"
    by (rule add_poll_null_again [OF d c])
next
  assume first: "\<not> initialised w"
  let ?w = "snd (g_event_context_default True w)"
  note made = default_first_live [OF first]
  have one: "0 < sint (ref_count \<lparr>funcs = epoll_funcs, struct_size = epoll_size, ref_count = 1\<rparr>)"
    by simp
  show "g_event_context_default True w =
        (Some (fresh w),
         w\<lparr>contexts := (contexts w)(fresh w \<mapsto>
               \<lparr>funcs = epoll_funcs, struct_size = epoll_size, ref_count = 1\<rparr>),
           fresh := Suc (fresh w),
           trace := trace w @ [MutexInit (fresh w)],
           default_event_context := Some (fresh w),
           initialised := True\<rparr>)"
    by (rule default_first [OF first])
  show "g_event_context_add_poll True None (Some p) w =
        Inr (log_event
              [MutexLock (fresh w), FuncsAddPoll epoll_funcs (fresh w) p, MutexUnlock (fresh w)] ?w)"
    by (rule add_poll_null_first [OF first])
  show "g_event_context_remove_poll True None (Some p) w =
        Inr (log_event
              [MutexLock (fresh w), FuncsRemovePoll epoll_funcs (fresh w) p, MutexUnlock (fresh w)] ?w)"
    by (rule remove_poll_null_first [OF first])
  show "g_event_context_add_poll ok_later None (Some q) ?w =
        Inr (log_event
              [MutexLock (fresh w), FuncsAddPoll epoll_funcs (fresh w) q, MutexUnlock (fresh w)] ?w)"
    using add_poll_null_again(1) [OF made(2,3,1) one, of ok_later q] by simp
  show "g_event_context_remove_poll ok_later None (Some q) ?w =
        Inr (log_event
              [MutexLock (fresh w), FuncsRemovePoll epoll_funcs (fresh w) q, MutexUnlock (fresh w)] ?w)"
    using add_poll_null_again(2) [OF made(2,3,1) one, of ok_later q] by simp
next
  show "initialised (snd (g_event_context_default epoll_ok w))"
    by (rule default_initialises)
  show "g_event_context_default ok_later (snd (g_event_context_default epoll_ok w)) =
     g_event_context_default epoll_ok w"
    by (rule default_once)
qed

text \<open>
  In \<^verbatim>\<open>src/glib/gevent.c\<close> the handle is dereferenced by the first statement of both
  functions, so a null handle is not replaced by anything: the call faults.
\<close>

theorem poll_calls_null_counterexample:
  "g_event_context_add_poll_gevent_c None (Some \<lparr>pollfd_fd = 3, pollfd_events = 1, pollfd_revents = 0\<rparr>) initial_world =
     Inl NullDereference \<and>
   g_event_context_remove_poll_gevent_c None (Some \<lparr>pollfd_fd = 3, pollfd_events = 1, pollfd_revents = 0\<rparr>) initial_world =
     Inl NullDereference"
  by (simp add: g_event_context_add_poll_gevent_c_def g_event_context_remove_poll_gevent_c_def)

theorem poll_calls_lock_delegate_unlock_witness:
  "\<not> initialised initial_world \<and> contexts initial_world = Map.empty \<and>
   g_event_context_add_poll True None
       (Some \<lparr>pollfd_fd = 3, pollfd_events = 1, pollfd_revents = 0\<rparr>) initial_world =
     Inr \<lparr>contexts = [0 \<mapsto> \<lparr>funcs = epoll_funcs, struct_size = epoll_size, ref_count = 1\<rparr>],
          fresh = 1,
          trace = [MutexInit 0, MutexLock 0,
                   FuncsAddPoll epoll_funcs 0 \<lparr>pollfd_fd = 3, pollfd_events = 1, pollfd_revents = 0\<rparr>,
                   MutexUnlock 0],
          initialised = True, default_event_context = Some 0, leaked = []\<rparr> \<and>
   g_event_context_remove_poll False None
       (Some \<lparr>pollfd_fd = 3, pollfd_events = 1, pollfd_revents = 0\<rparr>)
       (snd (g_event_context_default True initial_world)) =
     Inr \<lparr>contexts = [0 \<mapsto> \<lparr>funcs = epoll_funcs, struct_size = epoll_size, ref_count = 1\<rparr>],
          fresh = 1,
          trace = [MutexInit 0, MutexLock 0,
                   FuncsRemovePoll epoll_funcs 0 \<lparr>pollfd_fd = 3, pollfd_events = 1, pollfd_revents = 0\<rparr>,
                   MutexUnlock 0],
          initialised = True, default_event_context = Some 0, leaked = []\<rparr> \<and>
   g_event_context_default False (snd (g_event_context_default True initial_world)) =
     g_event_context_default True initial_world \<and>
   contexts (snd (g_event_context_new_custom 5 16 initial_world)) 0 =
     Some \<lparr>funcs = 5, struct_size = 16, ref_count = 1\<rparr> \<and>
   g_event_context_add_poll True (Some 0)
       (Some \<lparr>pollfd_fd = 3, pollfd_events = 1, pollfd_revents = 0\<rparr>)
       (snd (g_event_context_new_custom 5 16 initial_world)) =
     Inr (log_event
           [MutexLock 0, FuncsAddPoll 5 0 \<lparr>pollfd_fd = 3, pollfd_events = 1, pollfd_revents = 0\<rparr>,
            MutexUnlock 0]
           (snd (g_event_context_new_custom 5 16 initial_world))) \<and>
   g_event_context_remove_poll_gevent_c (Some 0)
       (Some \<lparr>pollfd_fd = 3, pollfd_events = 1, pollfd_revents = 0\<rparr>)
       (snd (g_event_context_new_custom 5 16 initial_world)) =
     Inr (log_event
           [MutexLock 0, FuncsRemovePoll 5 0 \<lparr>pollfd_fd = 3, pollfd_events = 1, pollfd_revents = 0\<rparr>,
            MutexUnlock 0]
           (snd (g_event_context_new_custom 5 16 initial_world)))"
proof -
  let ?p = "\<lparr>pollfd_fd = 3, pollfd_events = 1, pollfd_revents = 0\<rparr>"
  let ?custom = "snd (g_event_context_new_custom 5 16 initial_world)"
  have start: "\<not> initialised initial_world" "contexts initial_world = Map.empty"
    "fresh initial_world = 0"
    by (simp_all add: initial_world_def)
  have custom: "contexts ?custom 0 = Some \<lparr>funcs = 5, struct_size = 16, ref_count = 1\<rparr>"
    by (simp add: g_event_context_new_custom_def initial_world_def)
  have one: "0 < sint (ref_count \<lparr>funcs = 5, struct_size = 16, ref_count = 1\<rparr>)"
    by simp
  note first_use = poll_calls_lock_delegate_unlock [where w = initial_world and p = ?p and q = ?p
      and ok_later = False and epoll_ok = True, THEN conjunct2, THEN conjunct1, THEN mp,
      OF start(1), unfolded start(3)]
  note first = first_use [THEN conjunct1] first_use [THEN conjunct2, THEN conjunct1]
    first_use [THEN conjunct2, THEN conjunct2, THEN conjunct2, THEN conjunct2]
    poll_calls_lock_delegate_unlock [where w = initial_world and ok_later = False
      and epoll_ok = True, THEN conjunct2, THEN conjunct2, THEN conjunct2]
  note given_use = poll_calls_lock_delegate_unlock [where w = ?custom and c = 0 and p = ?p
      and priv = "\<lparr>funcs = 5, struct_size = 16, ref_count = 1\<rparr>" and epoll_ok = True,
      THEN conjunct1, THEN mp, OF conjI [OF custom one], simplified GEventContext.simps]
  note given = given_use [THEN conjunct1]
    given_use [THEN conjunct2, THEN conjunct2, THEN conjunct2, THEN conjunct1]
  have world: "log_event es (snd (g_event_context_default True initial_world)) =
      \<lparr>contexts = [0 \<mapsto> \<lparr>funcs = epoll_funcs, struct_size = epoll_size, ref_count = 1\<rparr>],
       fresh = 1, trace = MutexInit 0 # es,
       initialised = True, default_event_context = Some 0, leaked = []\<rparr>" for es
    unfolding first(1) by (simp add: log_event_def initial_world_def)
  from start first(2,3,4) given custom show ?thesis
    unfolding world by simp
qed

section \<open>Properties of the poll-record store\<close>

subsection \<open>Paths through the heap\<close>

lemma first_opt_simps [simp]:
  "first_opt [] = None" "first_opt (a # as) = Some a"
  by (simp_all add: first_opt_def)

lemma last_opt_simps [simp]:
  "last_opt [] = None" "last_opt (as @ [a]) = Some a"
  by (simp_all add: last_opt_def)

lemma first_opt_rev [simp]: "first_opt (rev as) = last_opt as"
  by (cases as rule: rev_cases) simp_all

lemma last_opt_rev [simp]: "last_opt (rev as) = first_opt as"
  by (cases as) simp_all

lemma first_opt_append: "first_opt (as @ bs) = (if as = [] then first_opt bs else first_opt as)"
  by (cases as) simp_all

lemma last_opt_append: "last_opt (as @ bs) = (if bs = [] then last_opt as else last_opt bs)"
  by (simp add: last_opt_def)

lemma last_opt_Cons: "last_opt (a # as) = (if as = [] then Some a else last_opt as)"
  by (simp add: last_opt_def)

lemma path_append: "path h f x (as @ bs) z = (\<exists>y. path h f x as y \<and> path h f y bs z)"
  by (induction as arbitrary: x) (auto split: option.splits)

lemma path_appendI: "path h f x as y \<Longrightarrow> path h f y bs z \<Longrightarrow> path h f x (as @ bs) z"
  by (auto simp: path_append)

lemma path_first: "path h f x as y \<Longrightarrow> as \<noteq> [] \<Longrightarrow> x = first_opt as"
  by (cases as) simp_all

lemma path_None: "path h f None as y \<Longrightarrow> as = [] \<and> y = None"
  by (cases as) simp_all

lemma path_cong:
  assumes "\<And>a. a \<in> set as \<Longrightarrow> map_option f (h' a) = map_option f (h a)"
  shows "path h' f x as y = path h f x as y"
  using assms
proof (induction as arbitrary: x)
  case Nil
  then show ?case by simp
next
  case (Cons a as)
  have here: "map_option f (h' a) = map_option f (h a)"
    using Cons.prems by simp
  have rest: "path h' f z as y = path h f z as y" for z
    using Cons.prems by (intro Cons.IH) simp
  show ?case
    using here by (cases "h a"; cases "h' a") (auto simp: rest)
qed

lemma path_snoc:
  "path h f x (as @ [a]) y = (path h f x as (Some a) \<and> map_option f (h a) = Some y)"
  by (auto simp: path_append split: option.splits)

lemma path_live: "path h f x as y \<Longrightarrow> a \<in> set as \<Longrightarrow> h a \<noteq> None"
  by (induction as arbitrary: x) (auto split: option.splits)

text \<open>A new cell between two parts of a path.\<close>

lemma path_insert:
  assumes old: "path h f x (xs @ ys) None"
    and front: "\<And>a. a \<in> set (butlast xs) \<Longrightarrow> map_option f (h' a) = map_option f (h a)"
    and link: "xs \<noteq> [] \<Longrightarrow> map_option f (h' (last xs)) = Some (Some n)"
    and rear: "\<And>a. a \<in> set ys \<Longrightarrow> map_option f (h' a) = map_option f (h a)"
    and cell: "map_option f (h' n) = Some (first_opt ys)"
    and start: "x' = (if xs = [] then Some n else x)"
  shows "path h' f x' (xs @ n # ys) None"
proof -
  from old obtain y where xs: "path h f x xs y" and ys: "path h f y ys None"
    by (auto simp: path_append)
  have y: "y = first_opt ys"
    using ys by (cases ys) simp_all
  have ys': "path h' f (first_opt ys) ys None"
    using ys y rear by (simp add: path_cong [of ys f h' h])
  have mid: "path h' f (Some n) (n # ys) None"
    using cell ys' by (cases "h' n") auto
  show ?thesis
  proof (cases xs rule: rev_cases)
    case Nil
    with mid start show ?thesis by simp
  next
    case (snoc zs l)
    have "path h f x zs (Some l)"
      using xs snoc by (simp add: path_snoc)
    then have "path h' f x zs (Some l)"
      using front snoc by (simp add: path_cong [of zs f h' h])
    moreover have "map_option f (h' l) = Some (Some n)"
      using link snoc by simp
    ultimately have "path h' f x (zs @ [l]) (Some n)"
      by (simp add: path_snoc)
    from path_appendI [OF this mid] snoc start show ?thesis
      by simp
  qed
qed

text \<open>A cell taken out of a path.\<close>

lemma path_delete:
  assumes old: "path h f x (xs @ d # ys) None"
    and front: "\<And>a. a \<in> set (butlast xs) \<Longrightarrow> map_option f (h' a) = map_option f (h a)"
    and link: "xs \<noteq> [] \<Longrightarrow> map_option f (h' (last xs)) = Some (first_opt ys)"
    and rear: "\<And>a. a \<in> set ys \<Longrightarrow> map_option f (h' a) = map_option f (h a)"
    and start: "x' = (if xs = [] then first_opt ys else x)"
  shows "path h' f x' (xs @ ys) None"
proof -
  from old obtain y z where xs: "path h f x xs y" and ys: "path h f z ys None"
    by (auto simp: path_append split: option.splits)
  have z: "z = first_opt ys"
    using ys by (cases ys) simp_all
  have ys': "path h' f (first_opt ys) ys None"
    using ys z rear by (simp add: path_cong [of ys f h' h])
  show ?thesis
  proof (cases xs rule: rev_cases)
    case Nil
    with ys' start show ?thesis by simp
  next
    case (snoc zs l)
    have "path h f x zs (Some l)"
      using xs snoc by (simp add: path_snoc)
    then have "path h' f x zs (Some l)"
      using front snoc by (simp add: path_cong [of zs f h' h])
    moreover have "map_option f (h' l) = Some (first_opt ys)"
      using link snoc by simp
    ultimately have "path h' f x (zs @ [l]) (first_opt ys)"
      by (simp add: path_snoc)
    from path_appendI [OF this ys'] snoc start show ?thesis
      by simp
  qed
qed

subsection \<open>Linking a record in\<close>

lemma set_next_apply:
  "set_next p v h a = (if a = p then map_option (\<lambda>r. r\<lparr>rec_next := v\<rparr>) (h a) else h a)"
  by (simp add: set_next_def)

lemma set_prev_apply:
  "set_prev p v h a = (if a = p then map_option (\<lambda>r. r\<lparr>rec_prev := v\<rparr>) (h a) else h a)"
  by (simp add: set_prev_def)

lemma scan_back_path:
  assumes "path h rec_prev cur (qs @ rs) None"
    and "\<And>a. a \<in> set qs \<Longrightarrow> \<exists>r. h a = Some r \<and> sint p < sint (rec_priority r)"
    and "\<And>a r. first_opt rs = Some a \<Longrightarrow> h a = Some r \<Longrightarrow> \<not> sint p < sint (rec_priority r)"
  shows "scan_back h p cur nxt = Some (first_opt rs, if qs = [] then nxt else Some (last qs))"
  using assms(1,2)
proof (induction qs arbitrary: cur nxt)
  case Nil
  show ?case
  proof (cases rs)
    case Nil
    with Nil.prems(1) have "cur = None" by simp
    with Nil show ?thesis
      by (subst scan_back.simps) simp
  next
    case (Cons a rs')
    with Nil.prems(1) obtain r where "cur = Some a" "h a = Some r"
      by (auto split: option.splits)
    moreover from this assms(3) [of a r] Cons have "\<not> sint p < sint (rec_priority r)"
      by simp
    ultimately show ?thesis
      using Cons by (subst scan_back.simps) simp
  qed
next
  case (Cons q qs)
  from Cons.prems(1) obtain r where cur: "cur = Some q" and r: "h q = Some r"
    and rest: "path h rec_prev (rec_prev r) (qs @ rs) None"
    by (auto split: option.splits)
  from Cons.prems(2) [of q] r have less: "sint p < sint (rec_priority r)"
    by simp
  have "scan_back h p (rec_prev r) (Some q) =
      Some (first_opt rs, if qs = [] then Some q else Some (last qs))"
    using rest Cons.prems(2) by (intro Cons.IH) simp_all
  then show ?case
    using cur r less by (subst scan_back.simps) simp
qed

lemma holds_ends:
  assumes "holds b as"
  shows "poll_records b = first_opt as" "poll_records_tail b = last_opt as"
proof -
  from assms have fwd: "path (recs b) rec_next (poll_records b) as None"
    and bwd: "path (recs b) rec_prev (poll_records_tail b) (rev as) None"
    by (simp_all add: holds_def)
  show "poll_records b = first_opt as"
    using fwd by (cases as) simp_all
  show "poll_records_tail b = last_opt as"
    using bwd by (cases as rule: rev_cases) simp_all
qed

lemma holds_live: "holds b as \<Longrightarrow> a \<in> set as \<Longrightarrow> recs b a \<noteq> None"
  unfolding holds_def using path_live [of "recs b" rec_next "poll_records b" as None a] by blast

lemma holds_fresh: "holds b as \<Longrightarrow> slice_next b \<notin> set as"
  by (auto simp: holds_def list_all_iff)

lemma priority_at_cell: "recs b a = Some r \<Longrightarrow> priority_at b a = sint (rec_priority r)"
  by (simp add: priority_at_def)

text \<open>The heap and the store after a record was linked in between \<open>prevrec\<close> and \<open>nextrec\<close>.\<close>

lemma link_record_result:
  assumes scan: "scan_back ((recs b)(slice_next b \<mapsto>
        \<lparr>rec_prev = None, rec_next = None, rec_fd = fd, rec_priority = p, rec_events = ev\<rparr>))
      p (poll_records_tail b) None = Some (prevrec, nextrec)"
  shows "\<exists>b'. link_record fd ev p b = Some b' \<and>
      recs b' =
        (case nextrec of None \<Rightarrow> (\<lambda>h. h) | Some m \<Rightarrow> set_prev m (Some (slice_next b)))
          (set_next (slice_next b) nextrec (set_prev (slice_next b) prevrec
            ((case prevrec of None \<Rightarrow> (\<lambda>h. h) | Some q \<Rightarrow> set_next q (Some (slice_next b)))
              ((recs b)(slice_next b \<mapsto>
                 \<lparr>rec_prev = None, rec_next = None, rec_fd = fd, rec_priority = p,
                  rec_events = ev\<rparr>))))) \<and>
      poll_records b' = (if prevrec = None then Some (slice_next b) else poll_records b) \<and>
      poll_records_tail b' = (if nextrec = None then Some (slice_next b) else poll_records_tail b) \<and>
      slice_next b' = Suc (slice_next b) \<and>
      n_poll_records b' = n_poll_records b + 1 \<and>
      poll_store.more b' = poll_store.more b"
  using scan by (cases prevrec; cases nextrec) (simp_all add: link_record_def Let_def)

lemma link_record_holds:
  assumes holds: "holds b (xs @ ys)"
    and above: "\<And>a. a \<in> set ys \<Longrightarrow> sint p < priority_at b a"
    and below: "xs \<noteq> [] \<Longrightarrow> \<not> sint p < priority_at b (last xs)"
  shows "\<exists>b'. link_record fd ev p b = Some b' \<and>
      holds b' (xs @ slice_next b # ys) \<and>
      entry_at b' (slice_next b) = Some (fd, ev, p) \<and>
      (\<forall>a \<in> set (xs @ ys). entry_at b' a = entry_at b a) \<and>
      slice_next b' = Suc (slice_next b) \<and>
      n_poll_records b' = n_poll_records b + 1 \<and>
      poll_store.more b' = poll_store.more b"
proof -
  let ?n = "slice_next b"
  let ?cell = "\<lparr>rec_prev = None, rec_next = None, rec_fd = fd, rec_priority = p, rec_events = ev\<rparr>"
  let ?h0 = "(recs b)(?n \<mapsto> ?cell)"
  let ?prevrec = "last_opt xs" and ?nextrec = "first_opt ys"
  from holds have dist: "distinct (xs @ ys)"
    and below_n: "list_all (\<lambda>a. a < ?n) (xs @ ys)"
    and fwd: "path (recs b) rec_next (poll_records b) (xs @ ys) None"
    and bwd: "path (recs b) rec_prev (poll_records_tail b) (rev ys @ rev xs) None"
    by (simp_all add: holds_def)
  have fresh: "?n \<notin> set (xs @ ys)"
    using holds by (rule holds_fresh)
  have live: "recs b a \<noteq> None" if "a \<in> set (xs @ ys)" for a
    using holds that by (rule holds_live)
  have bwd0: "path ?h0 rec_prev (poll_records_tail b) (rev ys @ rev xs) None"
    using bwd fresh by (subst path_cong [of _ _ _ "recs b"]) auto
  have scan: "scan_back ?h0 p (poll_records_tail b) None = Some (?prevrec, ?nextrec)"
  proof -
    have found: "scan_back ?h0 p (poll_records_tail b) None =
        Some (first_opt (rev xs), if rev ys = [] then None else Some (last (rev ys)))"
    proof (rule scan_back_path [OF bwd0])
      fix a assume a: "a \<in> set (rev ys)"
      with live [of a] obtain r where r: "recs b a = Some r"
        by auto
      with above [of a] a have "sint p < sint (rec_priority r)"
        by (simp add: priority_at_cell)
      with r a fresh show "\<exists>r. ?h0 a = Some r \<and> sint p < sint (rec_priority r)"
        by auto
    next
      fix a r assume a: "first_opt (rev xs) = Some a" and r: "?h0 a = Some r"
      from a have xs: "xs \<noteq> []" and last: "last xs = a"
        by (auto simp: last_opt_def split: if_splits)
      then have "a \<in> set xs"
        by auto
      with r fresh have "recs b a = Some r"
        by (auto split: if_splits)
      with below [OF xs] last show "\<not> sint p < sint (rec_priority r)"
        by (simp add: priority_at_cell)
    qed
    have "(if rev ys = [] then None else Some (last (rev ys))) = first_opt ys"
      by (cases ys) simp_all
    with found show ?thesis
      by simp
  qed
  from link_record_result [OF scan, of] obtain b' where
    run: "link_record fd ev p b = Some b'"
    and heap: "recs b' =
        (case ?nextrec of None \<Rightarrow> (\<lambda>h. h) | Some m \<Rightarrow> set_prev m (Some ?n))
          (set_next ?n ?nextrec (set_prev ?n ?prevrec
            ((case ?prevrec of None \<Rightarrow> (\<lambda>h. h) | Some q \<Rightarrow> set_next q (Some ?n)) ?h0)))"
    and head: "poll_records b' = (if ?prevrec = None then Some ?n else poll_records b)"
    and tail: "poll_records_tail b' = (if ?nextrec = None then Some ?n else poll_records_tail b)"
    and rest: "slice_next b' = Suc ?n" "n_poll_records b' = n_poll_records b + 1"
      "poll_store.more b' = poll_store.more b"
    by blast
  have prev_in: "q \<in> set xs \<and> q \<noteq> ?n" if "?prevrec = Some q" for q
  proof -
    from that have "xs \<noteq> []" "q = last xs"
      by (auto simp: last_opt_def split: if_splits)
    then have "q \<in> set xs"
      by simp
    with fresh show ?thesis
      by auto
  qed
  have next_in: "?nextrec = Some m \<Longrightarrow> m \<in> set ys \<and> m \<noteq> ?n" for m
    using fresh by (cases ys) auto
  have cell_n: "recs b' ?n = Some (?cell\<lparr>rec_prev := ?prevrec, rec_next := ?nextrec\<rparr>)"
    unfolding heap using prev_in next_in
    by (cases ?prevrec; cases ?nextrec) (simp_all add: set_next_apply set_prev_apply)
  have next_field: "map_option rec_next (recs b' a) =
      (if ?prevrec = Some a then Some (Some ?n) else map_option rec_next (recs b a))"
    if "a \<in> set (xs @ ys)" for a
    unfolding heap using that fresh live [OF that]
    by (cases ?prevrec; cases ?nextrec)
      (auto simp: set_next_apply set_prev_apply option.map_comp comp_def)
  have prev_field: "map_option rec_prev (recs b' a) =
      (if ?nextrec = Some a then Some (Some ?n) else map_option rec_prev (recs b a))"
    if "a \<in> set (xs @ ys)" for a
    unfolding heap using that fresh live [OF that]
    by (cases ?prevrec; cases ?nextrec)
      (auto simp: set_next_apply set_prev_apply option.map_comp comp_def)
  have entries: "entry_at b' a = entry_at b a" if "a \<in> set (xs @ ys)" for a
    unfolding entry_at_def heap using that fresh
    by (cases ?prevrec; cases ?nextrec)
      (auto simp: set_next_apply set_prev_apply option.map_comp comp_def)
  have not_last: "?prevrec \<noteq> Some a" if "a \<in> set (butlast xs) \<or> a \<in> set ys" for a
  proof
    assume "?prevrec = Some a"
    then have xs: "xs \<noteq> []" and a: "a = last xs"
      by (auto simp: last_opt_def split: if_splits)
    from xs have "xs = butlast xs @ [a]"
      using a by simp
    then have "distinct (butlast xs @ [a] @ ys)"
      using dist by (metis append_assoc)
    with that show False
      by auto
  qed
  have not_first: "?nextrec \<noteq> Some a" if "a \<in> set xs \<or> a \<in> set (tl ys)" for a
  proof
    assume "?nextrec = Some a"
    then obtain ys' where "ys = a # ys'"
      by (cases ys) auto
    with dist that show False
      by auto
  qed
  have fwd': "path (recs b') rec_next (poll_records b') (xs @ ?n # ys) None"
  proof (rule path_insert [OF fwd])
    show "map_option rec_next (recs b' a) = map_option rec_next (recs b a)"
      if "a \<in> set (butlast xs)" for a
      using that not_last [of a] next_field [of a] by (auto dest: in_set_butlastD)
    show "map_option rec_next (recs b' (last xs)) = Some (Some ?n)" if "xs \<noteq> []"
      using that next_field [of "last xs"] by (simp add: last_opt_def)
    show "map_option rec_next (recs b' a) = map_option rec_next (recs b a)"
      if "a \<in> set ys" for a
      using that not_last [of a] next_field [of a] by auto
    show "map_option rec_next (recs b' ?n) = Some ?nextrec"
      by (simp add: cell_n)
    show "poll_records b' = (if xs = [] then Some ?n else poll_records b)"
      by (simp add: head last_opt_def)
  qed
  have bwd': "path (recs b') rec_prev (poll_records_tail b') (rev ys @ ?n # rev xs) None"
  proof (rule path_insert [OF bwd])
    show "map_option rec_prev (recs b' a) = map_option rec_prev (recs b a)"
      if "a \<in> set (butlast (rev ys))" for a
    proof -
      from that have tl: "a \<in> set (tl ys)"
        by (simp add: butlast_rev)
      then have "a \<in> set ys"
        by (cases ys) auto
      with tl show ?thesis
        using not_first [of a] prev_field [of a] by auto
    qed
    show "map_option rec_prev (recs b' (last (rev ys))) = Some (Some ?n)" if "rev ys \<noteq> []"
      using that prev_field [of "hd ys"] by (cases ys) simp_all
    show "map_option rec_prev (recs b' a) = map_option rec_prev (recs b a)"
      if "a \<in> set (rev xs)" for a
      using that not_first [of a] prev_field [of a] by auto
    show "map_option rec_prev (recs b' ?n) = Some (first_opt (rev xs))"
      by (simp add: cell_n)
    show "poll_records_tail b' = (if rev ys = [] then Some ?n else poll_records_tail b)"
      by (cases ys) (simp_all add: tail)
  qed
  have "holds b' (xs @ ?n # ys)"
    unfolding holds_def using dist fresh below_n fwd' bwd' rest(1)
    by (auto simp: list_all_iff less_Suc_eq)
  moreover have "entry_at b' ?n = Some (fd, ev, p)"
    by (simp add: entry_at_def cell_n)
  ultimately show ?thesis
    using run entries rest by blast
qed

lemma sorted_split:
  "sorted (map f as) \<Longrightarrow>
   as = filter (\<lambda>a. f a \<le> (k :: int)) as @ filter (\<lambda>a. k < f a) as"
proof (induction as)
  case Nil
  then show ?case by simp
next
  case (Cons a as)
  show ?case
  proof (cases "f a \<le> k")
    case True
    with Cons show ?thesis by simp
  next
    case False
    with Cons.prems have "\<forall>x \<in> set as. \<not> f x \<le> k"
      by auto
    then have "filter (\<lambda>a. f a \<le> k) as = []" "filter (\<lambda>a. k < f a) as = as"
      by (simp_all add: filter_empty_conv filter_id_conv not_le)
    with False show ?thesis by simp
  qed
qed

lemma priority_at_entry:
  "entry_at b' a = entry_at b a \<Longrightarrow> priority_at b' a = priority_at b a"
  by (cases "recs b a"; cases "recs b' a") (auto simp: entry_at_def priority_at_def)

lemma priority_at_new: "entry_at b a = Some (fd, ev, p) \<Longrightarrow> priority_at b a = sint p"
  by (cases "recs b a") (auto simp: entry_at_def priority_at_def)

text \<open>Linking a record into a sorted store.\<close>

lemma link_record_sorted:
  assumes holds: "holds b as" and sorted: "sorted (map (priority_at b) as)"
  shows "\<exists>b'. link_record fd ev p b = Some b' \<and>
      holds b' (filter (\<lambda>a. priority_at b a \<le> sint p) as @ slice_next b #
                filter (\<lambda>a. sint p < priority_at b a) as) \<and>
      sorted (map (priority_at b')
               (filter (\<lambda>a. priority_at b a \<le> sint p) as @ slice_next b #
                filter (\<lambda>a. sint p < priority_at b a) as)) \<and>
      entry_at b' (slice_next b) = Some (fd, ev, p) \<and>
      (\<forall>a \<in> set as. entry_at b' a = entry_at b a) \<and>
      slice_next b' = Suc (slice_next b) \<and>
      n_poll_records b' = n_poll_records b + 1 \<and>
      poll_store.more b' = poll_store.more b"
proof -
  let ?xs = "filter (\<lambda>a. priority_at b a \<le> sint p) as"
  let ?ys = "filter (\<lambda>a. sint p < priority_at b a) as"
  have split: "as = ?xs @ ?ys"
    using sorted by (rule sorted_split)
  have holds': "holds b (?xs @ ?ys)"
    using holds split by simp
  have below: "\<not> sint p < priority_at b (last ?xs)" if "?xs \<noteq> []"
  proof -
    from that have "last ?xs \<in> set ?xs"
      by (rule last_in_set)
    then show ?thesis by simp
  qed
  have "\<exists>b'. link_record fd ev p b = Some b' \<and>
      holds b' (?xs @ slice_next b # ?ys) \<and>
      entry_at b' (slice_next b) = Some (fd, ev, p) \<and>
      (\<forall>a \<in> set (?xs @ ?ys). entry_at b' a = entry_at b a) \<and>
      slice_next b' = Suc (slice_next b) \<and>
      n_poll_records b' = n_poll_records b + 1 \<and>
      poll_store.more b' = poll_store.more b"
    using holds' _ below by (rule link_record_holds) simp
  then obtain b' where
    run: "link_record fd ev p b = Some b'"
    and h: "holds b' (?xs @ slice_next b # ?ys)"
    and new: "entry_at b' (slice_next b) = Some (fd, ev, p)"
    and old: "\<forall>a \<in> set (?xs @ ?ys). entry_at b' a = entry_at b a"
    and rest: "slice_next b' = Suc (slice_next b)" "n_poll_records b' = n_poll_records b + 1"
      "poll_store.more b' = poll_store.more b"
    by auto
  have old': "\<forall>a \<in> set as. entry_at b' a = entry_at b a"
    using old split by metis
  have same: "map (priority_at b') zs = map (priority_at b) zs" if "set zs \<subseteq> set as" for zs
    using that old' by (auto intro: priority_at_entry)
  have xs': "map (priority_at b') ?xs = map (priority_at b) ?xs"
    and ys': "map (priority_at b') ?ys = map (priority_at b) ?ys"
    by (rule same, simp)+
  have "sorted (map (priority_at b) ?xs)" "sorted (map (priority_at b) ?ys)"
    using sorted by (simp_all add: sorted_filter)
  then have "sorted (map (priority_at b) ?xs @ sint p # map (priority_at b) ?ys)"
    by (auto simp: sorted_append)
  then have "sorted (map (priority_at b') (?xs @ slice_next b # ?ys))"
    by (simp add: xs' ys' priority_at_new [OF new])
  with run h new old' rest show ?thesis
    by blast
qed

lemma holds_more_update [simp]:
  "holds (b\<lparr>poll_changed := x\<rparr>) as = holds b as"
  "priority_at (b\<lparr>poll_changed := x\<rparr>) = priority_at b"
  "entry_at (b\<lparr>poll_changed := x\<rparr>) = entry_at b"
  by (simp_all add: holds_def priority_at_def entry_at_def fun_eq_iff)

lemma holds_new:
  "holds (g_baseline_poller_new func) []" "holds (g_poll_context_create func ctx) []"
  by (simp_all add: holds_def g_baseline_poller_new_def g_poll_context_create_def)

lemma baseline_adds_sorted:
  assumes "holds b as" "sorted (map (priority_at b) as)"
  shows "\<exists>b' as'. baseline_adds calls b = Some b' \<and> holds b' as' \<and>
      sorted (map (priority_at b') as') \<and> length as' = length as + length calls"
  using assms
proof (induction calls arbitrary: b as)
  case Nil
  then show ?case by auto
next
  case (Cons c calls)
  obtain fd ev p where c: "c = (fd, ev, p)"
    by (cases c)
  from link_record_sorted [OF Cons.prems, of fd ev p] obtain b1 as1 where
    "link_record fd ev p b = Some b1" "holds b1 as1" "sorted (map (priority_at b1) as1)"
    "length as1 = Suc (length as)"
    using sum_length_filter_compl [of "\<lambda>a. priority_at b a \<le> sint p" as]
    by (auto simp: not_le)
  moreover from Cons.IH [OF this(2,3), of] obtain b' as' where
    "baseline_adds calls b1 = Some b'" "holds b' as'" "sorted (map (priority_at b') as')"
    "length as' = length as1 + length calls"
    by blast
  ultimately show ?case
    by (auto simp: c g_baseline_poller_add_fd_def)
qed

lemma poll_context_adds_sorted:
  assumes "holds b as" "sorted (map (priority_at b) as)"
  shows "\<exists>b' as'. poll_context_adds calls b = Some b' \<and> holds b' as' \<and>
      sorted (map (priority_at b') as') \<and> length as' = length as + length calls"
  using assms
proof (induction calls arbitrary: b as)
  case Nil
  then show ?case by auto
next
  case (Cons c calls)
  obtain fd ev p where c: "c = (fd, ev, p)"
    by (cases c)
  from link_record_sorted [OF Cons.prems, of fd ev p] obtain b1 as1 where
    b1: "link_record fd ev p b = Some b1" "holds b1 as1" "sorted (map (priority_at b1) as1)"
    "length as1 = Suc (length as)"
    using sum_length_filter_compl [of "\<lambda>a. priority_at b a \<le> sint p" as]
    by (auto simp: not_le)
  have "holds (b1\<lparr>poll_changed := True\<rparr>) as1"
    "sorted (map (priority_at (b1\<lparr>poll_changed := True\<rparr>)) as1)"
    using b1 by simp_all
  from Cons.IH [OF this, of] obtain b' as' where
    "poll_context_adds calls (b1\<lparr>poll_changed := True\<rparr>) = Some b'" "holds b' as'"
    "sorted (map (priority_at b') as')" "length as' = length as1 + length calls"
    by blast
  with b1 show ?case
    by (auto simp: c g_poll_context_add_fd_def)
qed

text \<open>
  Claim C2. Let a store hold a list sorted by ascending priority. Both \<^verbatim>\<open>add_fd\<close>
  functions return, and the store then holds the old records in their old order with the
  new record (at the fresh address) placed after every record whose priority is less than
  or equal to the new one and before every record of greater priority, that is immediately
  after the last record of lower or equal priority; the new list is sorted again, the old
  records keep their descriptor, events and priority, and the record count goes up by one.
  Starting from a new backend, every sequence of \<^verbatim>\<open>add_fd\<close> calls returns and leaves a
  sorted list with one record for each call.
\<close>

theorem add_fd_sorted_stable:
  assumes "holds b as" and "sorted (map (priority_at b) as)"
    and "holds l ls" and "sorted (map (priority_at l) ls)"
  shows
    "(\<exists>b'. g_baseline_poller_add_fd b fd ev p = Some (b', []) \<and>
        holds b' (filter (\<lambda>a. priority_at b a \<le> sint p) as @ slice_next b #
                  filter (\<lambda>a. sint p < priority_at b a) as) \<and>
        sorted (map (priority_at b')
                 (filter (\<lambda>a. priority_at b a \<le> sint p) as @ slice_next b #
                  filter (\<lambda>a. sint p < priority_at b a) as)) \<and>
        entry_at b' (slice_next b) = Some (fd, ev, p) \<and>
        (\<forall>a \<in> set as. entry_at b' a = entry_at b a) \<and>
        n_poll_records b' = n_poll_records b + 1) \<and>
     (\<exists>l'. g_poll_context_add_fd l fd ev p =
          Some (True, l', [LockBackend, UnlockBackend, MainContextWakeup (main_context l)]) \<and>
        holds l' (filter (\<lambda>a. priority_at l a \<le> sint p) ls @ slice_next l #
                  filter (\<lambda>a. sint p < priority_at l a) ls) \<and>
        sorted (map (priority_at l')
                 (filter (\<lambda>a. priority_at l a \<le> sint p) ls @ slice_next l #
                  filter (\<lambda>a. sint p < priority_at l a) ls)) \<and>
        entry_at l' (slice_next l) = Some (fd, ev, p) \<and>
        (\<forall>a \<in> set ls. entry_at l' a = entry_at l a) \<and>
        n_poll_records l' = n_poll_records l + 1) \<and>
     (\<exists>b' as'. baseline_adds calls (g_baseline_poller_new func) = Some b' \<and> holds b' as' \<and>
        sorted (map (priority_at b') as') \<and> length as' = length calls) \<and>
     (\<exists>l' ls'. poll_context_adds calls (g_poll_context_create func ctx) = Some l' \<and> holds l' ls' \<and>
        sorted (map (priority_at l') ls') \<and> length ls' = length calls)"
proof -
  from link_record_sorted [OF assms(1,2), of fd ev p]
  have baseline: "\<exists>b'. g_baseline_poller_add_fd b fd ev p = Some (b', []) \<and>
        holds b' (filter (\<lambda>a. priority_at b a \<le> sint p) as @ slice_next b #
                  filter (\<lambda>a. sint p < priority_at b a) as) \<and>
        sorted (map (priority_at b')
                 (filter (\<lambda>a. priority_at b a \<le> sint p) as @ slice_next b #
                  filter (\<lambda>a. sint p < priority_at b a) as)) \<and>
        entry_at b' (slice_next b) = Some (fd, ev, p) \<and>
        (\<forall>a \<in> set as. entry_at b' a = entry_at b a) \<and>
        n_poll_records b' = n_poll_records b + 1"
    by (auto simp: g_baseline_poller_add_fd_def)
  from link_record_sorted [OF assms(3,4), of fd ev p] obtain l1 where
    l1: "link_record fd ev p l = Some l1"
      "holds l1 (filter (\<lambda>a. priority_at l a \<le> sint p) ls @ slice_next l #
                  filter (\<lambda>a. sint p < priority_at l a) ls)"
      "sorted (map (priority_at l1)
                 (filter (\<lambda>a. priority_at l a \<le> sint p) ls @ slice_next l #
                  filter (\<lambda>a. sint p < priority_at l a) ls))"
      "entry_at l1 (slice_next l) = Some (fd, ev, p)"
      "\<forall>a \<in> set ls. entry_at l1 a = entry_at l a"
      "n_poll_records l1 = n_poll_records l + 1"
      "poll_store.more l1 = poll_store.more l"
    by blast
  from l1(7) have ctx: "main_context l1 = main_context l"
    by (cases l1; cases l) simp
  have loop: "\<exists>l'. g_poll_context_add_fd l fd ev p =
          Some (True, l', [LockBackend, UnlockBackend, MainContextWakeup (main_context l)]) \<and>
        holds l' (filter (\<lambda>a. priority_at l a \<le> sint p) ls @ slice_next l #
                  filter (\<lambda>a. sint p < priority_at l a) ls) \<and>
        sorted (map (priority_at l')
                 (filter (\<lambda>a. priority_at l a \<le> sint p) ls @ slice_next l #
                  filter (\<lambda>a. sint p < priority_at l a) ls)) \<and>
        entry_at l' (slice_next l) = Some (fd, ev, p) \<and>
        (\<forall>a \<in> set ls. entry_at l' a = entry_at l a) \<and>
        n_poll_records l' = n_poll_records l + 1"
    using l1(1-6) ctx
    by (intro exI [of _ "l1\<lparr>poll_changed := True\<rparr>"]) (simp add: g_poll_context_add_fd_def)
  have seq1: "\<exists>b' as'. baseline_adds calls (g_baseline_poller_new func) = Some b' \<and> holds b' as' \<and>
        sorted (map (priority_at b') as') \<and> length as' = length calls"
    using baseline_adds_sorted [OF holds_new(1), of func calls] by simp
  have seq2: "\<exists>l' ls'. poll_context_adds calls (g_poll_context_create func ctx) = Some l' \<and>
        holds l' ls' \<and> sorted (map (priority_at l') ls') \<and> length ls' = length calls"
    using poll_context_adds_sorted [OF holds_new(2), of func ctx calls] by simp
  from baseline loop seq1 seq2 show ?thesis
    by blast
qed

lemmas add_fd_unfold =
  g_baseline_poller_add_fd_def g_poll_context_add_fd_def link_record_def
  g_baseline_poller_new_def g_poll_context_create_def scan_back.simps Let_def
  set_next_def set_prev_def

lemma four_calls_baseline:
  "baseline_adds four_calls (g_baseline_poller_new idle_poll) = Some baseline_four"
  by (simp add: four_calls_def baseline_four_def four_cells_def add_fd_unfold fun_eq_iff)

lemma four_calls_loop:
  "poll_context_adds four_calls (g_poll_context_create idle_poll 7) = Some loop_four"
  by (simp add: four_calls_def loop_four_def four_cells_def add_fd_unfold fun_eq_iff)

lemma holds_four:
  "holds baseline_four [1, 3, 2, 0]" "holds loop_four [1, 3, 2, 0]"
  by (simp_all add: holds_def baseline_four_def loop_four_def four_cells_def)

lemma priorities_four:
  "map (priority_at baseline_four) [1, 3, 2, 0] = [1, 1, 3, 5]"
  "map (priority_at loop_four) [1, 3, 2, 0] = [1, 1, 3, 5]"
  by (simp_all add: priority_at_def baseline_four_def loop_four_def four_cells_def)

theorem add_fd_sorted_stable_witness:
  "holds baseline_four [1, 3, 2, 0] \<and>
   sorted (map (priority_at baseline_four) [1, 3, 2, 0]) \<and>
   holds loop_four [1, 3, 2, 0] \<and>
   sorted (map (priority_at loop_four) [1, 3, 2, 0]) \<and>
   (\<exists>b'. g_baseline_poller_add_fd baseline_four 14 1 1 = Some (b', []) \<and>
      holds b' [1, 3, 4, 2, 0] \<and> entry_at b' 4 = Some (14, 1, 1) \<and> n_poll_records b' = 5) \<and>
   (\<exists>l'. g_poll_context_add_fd loop_four 14 1 1 =
        Some (True, l', [LockBackend, UnlockBackend, MainContextWakeup 7]) \<and>
      holds l' [1, 3, 4, 2, 0] \<and> entry_at l' 4 = Some (14, 1, 1) \<and> n_poll_records l' = 5) \<and>
   baseline_adds four_calls (g_baseline_poller_new idle_poll) = Some baseline_four \<and>
   poll_context_adds four_calls (g_poll_context_create idle_poll 7) = Some loop_four"
proof -
  have sorted: "sorted (map (priority_at baseline_four) [1, 3, 2, 0])"
    "sorted (map (priority_at loop_four) [1, 3, 2, 0])"
    by (simp_all only: priorities_four) simp_all
  have place:
    "filter (\<lambda>a. priority_at baseline_four a \<le> sint (1 :: gint)) [1, 3, 2, 0] @
       slice_next baseline_four # filter (\<lambda>a. sint (1 :: gint) < priority_at baseline_four a) [1, 3, 2, 0] =
     [1, 3, 4, 2, 0]"
    "filter (\<lambda>a. priority_at loop_four a \<le> sint (1 :: gint)) [1, 3, 2, 0] @
       slice_next loop_four # filter (\<lambda>a. sint (1 :: gint) < priority_at loop_four a) [1, 3, 2, 0] =
     [1, 3, 4, 2, 0]"
    by (simp_all add: priority_at_def baseline_four_def loop_four_def four_cells_def)
  have fields: "slice_next baseline_four = 4" "slice_next loop_four = 4"
    "n_poll_records baseline_four = 4" "n_poll_records loop_four = 4" "main_context loop_four = 7"
    by (simp_all add: baseline_four_def loop_four_def)
  from add_fd_sorted_stable [OF holds_four(1) sorted(1) holds_four(2) sorted(2), of 14 1 1 "[]" idle_poll 7]
  have "(\<exists>b'. g_baseline_poller_add_fd baseline_four 14 1 1 = Some (b', []) \<and>
      holds b' [1, 3, 4, 2, 0] \<and> entry_at b' 4 = Some (14, 1, 1) \<and> n_poll_records b' = 5) \<and>
   (\<exists>l'. g_poll_context_add_fd loop_four 14 1 1 =
        Some (True, l', [LockBackend, UnlockBackend, MainContextWakeup 7]) \<and>
      holds l' [1, 3, 4, 2, 0] \<and> entry_at l' 4 = Some (14, 1, 1) \<and> n_poll_records l' = 5)"
    unfolding place unfolding fields by fastforce
  then show ?thesis
    using holds_four sorted four_calls_baseline four_calls_loop by blast
qed

subsection \<open>Unlinking and updating a record\<close>

lemma find_record_path:
  assumes "path h rec_next cur (xs @ rest) None"
    and "\<And>a r. a \<in> set xs \<Longrightarrow> h a = Some r \<Longrightarrow> rec_fd r \<noteq> fd"
    and "\<And>a r. first_opt rest = Some a \<Longrightarrow> h a = Some r \<Longrightarrow> rec_fd r = fd"
  shows "find_record h fd cur prv =
     Some (if xs = [] then prv else Some (last xs), first_opt rest)"
  using assms(1,2)
proof (induction xs arbitrary: cur prv)
  case Nil
  show ?case
  proof (cases rest)
    case Nil
    with Nil.prems(1) have "cur = None" by simp
    with Nil show ?thesis
      by (subst find_record.simps) simp
  next
    case (Cons a rest')
    with Nil.prems(1) obtain r where "cur = Some a" "h a = Some r"
      by (auto split: option.splits)
    moreover from this assms(3) [of a r] Cons have "rec_fd r = fd"
      by simp
    ultimately show ?thesis
      using Cons by (subst find_record.simps) simp
  qed
next
  case (Cons x xs)
  from Cons.prems(1) obtain r where cur: "cur = Some x" and r: "h x = Some r"
    and rest: "path h rec_next (rec_next r) (xs @ rest) None"
    by (auto split: option.splits)
  from Cons.prems(2) [of x r] r have other: "rec_fd r \<noteq> fd"
    by simp
  have "find_record h fd (rec_next r) (Some x) =
      Some (if xs = [] then Some x else Some (last xs), first_opt rest)"
  proof (rule Cons.IH [OF rest])
    show "rec_fd r' \<noteq> fd" if "a \<in> set xs" "h a = Some r'" for a r'
      using Cons.prems(2) [of a r'] that by simp
  qed
  then show ?case
    using cur r other by (subst find_record.simps) simp
qed

lemma fd_at_cell: "recs b a = Some r \<Longrightarrow> fd_at b a = Some (rec_fd r)"
  by (simp add: fd_at_def)

text \<open>The search on a store that holds a list.\<close>

lemma find_record_present:
  assumes holds: "holds b (xs @ d # ys)"
    and before: "\<And>a. a \<in> set xs \<Longrightarrow> fd_at b a \<noteq> Some fd"
    and here: "fd_at b d = Some fd"
  shows "find_record (recs b) fd (poll_records b) None = Some (last_opt xs, Some d)"
proof -
  have "find_record (recs b) fd (poll_records b) None =
      Some (if xs = [] then None else Some (last xs), first_opt (d # ys))"
  proof (rule find_record_path)
    show "path (recs b) rec_next (poll_records b) (xs @ d # ys) None"
      using holds by (simp add: holds_def)
    show "rec_fd r \<noteq> fd" if "a \<in> set xs" "recs b a = Some r" for a r
      using before [OF that(1)] that(2) by (simp add: fd_at_cell)
    show "rec_fd r = fd" if "first_opt (d # ys) = Some a" "recs b a = Some r" for a r
      using here that by (simp add: fd_at_cell)
  qed
  then show ?thesis
    by (simp add: last_opt_def)
qed

lemma find_record_absent:
  assumes holds: "holds b as"
    and nowhere: "\<And>a. a \<in> set as \<Longrightarrow> fd_at b a \<noteq> Some fd"
  shows "find_record (recs b) fd (poll_records b) None = Some (last_opt as, None)"
proof -
  have "find_record (recs b) fd (poll_records b) None =
      Some (if as = [] then None else Some (last as), first_opt [])"
  proof (rule find_record_path)
    show "path (recs b) rec_next (poll_records b) (as @ []) None"
      using holds by (simp add: holds_def)
    show "rec_fd r \<noteq> fd" if "a \<in> set as" "recs b a = Some r" for a r
      using nowhere [OF that(1)] that(2) by (simp add: fd_at_cell)
  qed simp
  then show ?thesis
    by (simp add: last_opt_def)
qed

lemma unlink_record_absent:
  assumes "holds b as" and "\<And>a. a \<in> set as \<Longrightarrow> fd_at b a \<noteq> Some fd"
  shows "unlink_record fd b = Some (False, b)"
  using find_record_absent [OF assms] by (simp add: unlink_record_def)

lemma update_record_absent:
  assumes "holds b as" and "\<And>a. a \<in> set as \<Longrightarrow> fd_at b a \<noteq> Some fd"
  shows "update_record fd ev p b = Some (False, b)"
  using find_record_absent [OF assms] by (simp add: update_record_def)

lemma unlink_record_result:
  assumes "find_record (recs b) fd (poll_records b) None = Some (prevrec, Some d)"
    and "recs b d = Some r"
  shows "\<exists>b'. unlink_record fd b = Some (True, b') \<and>
      recs b' =
        ((case rec_next r of None \<Rightarrow> (\<lambda>h. h) | Some m \<Rightarrow> set_prev m prevrec)
          ((case prevrec of None \<Rightarrow> (\<lambda>h. h) | Some q \<Rightarrow> set_next q (rec_next r)) (recs b)))
        (d := None) \<and>
      poll_records b' = (if prevrec = None then rec_next r else poll_records b) \<and>
      poll_records_tail b' = (if rec_next r = None then prevrec else poll_records_tail b) \<and>
      slice_next b' = slice_next b \<and>
      n_poll_records b' = n_poll_records b - 1 \<and>
      poll_store.more b' = poll_store.more b"
  using assms by (cases prevrec; cases "rec_next r") (simp_all add: unlink_record_def Let_def)

lemma unlink_record_holds:
  assumes holds: "holds b (xs @ d # ys)"
    and before: "\<And>a. a \<in> set xs \<Longrightarrow> fd_at b a \<noteq> Some fd"
    and here: "fd_at b d = Some fd"
  shows "\<exists>b'. unlink_record fd b = Some (True, b') \<and>
      holds b' (xs @ ys) \<and>
      (\<forall>a \<in> set (xs @ ys). entry_at b' a = entry_at b a) \<and>
      recs b' d = None \<and>
      slice_next b' = slice_next b \<and>
      n_poll_records b' = n_poll_records b - 1 \<and>
      poll_store.more b' = poll_store.more b"
proof -
  let ?prevrec = "last_opt xs" and ?nextrec = "first_opt ys"
  from holds have dist: "distinct (xs @ d # ys)"
    and below_n: "list_all (\<lambda>a. a < slice_next b) (xs @ d # ys)"
    and fwd: "path (recs b) rec_next (poll_records b) (xs @ d # ys) None"
    and bwd: "path (recs b) rec_prev (poll_records_tail b) (rev ys @ d # rev xs) None"
    by (simp_all add: holds_def)
  have live: "recs b a \<noteq> None" if "a \<in> set (xs @ d # ys)" for a
    using holds that by (rule holds_live)
  from live [of d] obtain r where r: "recs b d = Some r"
    by auto
  have "path (recs b) rec_next (Some d) (d # ys) None"
    using fwd by (auto simp: path_append split: option.splits)
  then have "path (recs b) rec_next (rec_next r) ys None"
    using r by simp
  then have nxt: "rec_next r = ?nextrec"
    by (cases ys) simp_all
  have "path (recs b) rec_prev (Some d) (d # rev xs) None"
    using bwd by (auto simp: path_append split: option.splits)
  then have "path (recs b) rec_prev (rec_prev r) (rev xs) None"
    using r by simp
  then have prv: "rec_prev r = ?prevrec"
    by (cases xs rule: rev_cases) simp_all
  note result = unlink_record_result [OF find_record_present [OF holds before here] r]
  from result [unfolded nxt]
  obtain b' where run: "unlink_record fd b = Some (True, b')"
    and heap: "recs b' =
        ((case ?nextrec of None \<Rightarrow> (\<lambda>h. h) | Some m \<Rightarrow> set_prev m ?prevrec)
          ((case ?prevrec of None \<Rightarrow> (\<lambda>h. h) | Some q \<Rightarrow> set_next q ?nextrec) (recs b)))
        (d := None)"
    and head: "poll_records b' = (if ?prevrec = None then ?nextrec else poll_records b)"
    and tail: "poll_records_tail b' = (if ?nextrec = None then ?prevrec else poll_records_tail b)"
    and rest: "slice_next b' = slice_next b" "n_poll_records b' = n_poll_records b - 1"
      "poll_store.more b' = poll_store.more b"
    by blast
  have next_field: "map_option rec_next (recs b' a) =
      (if ?prevrec = Some a then Some ?nextrec else map_option rec_next (recs b a))"
    if "a \<in> set (xs @ ys)" for a
  proof -
    from that dist have "a \<noteq> d" by auto
    moreover from that have "recs b a \<noteq> None" by (intro live) auto
    ultimately show ?thesis
      unfolding heap
      by (cases ?prevrec; cases ?nextrec)
        (auto simp: set_next_apply set_prev_apply option.map_comp comp_def)
  qed
  have prev_field: "map_option rec_prev (recs b' a) =
      (if ?nextrec = Some a then Some ?prevrec else map_option rec_prev (recs b a))"
    if "a \<in> set (xs @ ys)" for a
  proof -
    from that dist have "a \<noteq> d" by auto
    moreover from that have "recs b a \<noteq> None" by (intro live) auto
    ultimately show ?thesis
      unfolding heap
      by (cases ?prevrec; cases ?nextrec)
        (auto simp: set_next_apply set_prev_apply option.map_comp comp_def)
  qed
  have entries: "entry_at b' a = entry_at b a" if "a \<in> set (xs @ ys)" for a
  proof -
    from that dist have "a \<noteq> d" by auto
    then show ?thesis
      unfolding entry_at_def heap
      by (cases ?prevrec; cases ?nextrec)
        (auto simp: set_next_apply set_prev_apply option.map_comp comp_def)
  qed
  have not_last: "?prevrec \<noteq> Some a" if "a \<in> set (butlast xs) \<or> a \<in> set ys" for a
  proof
    assume "?prevrec = Some a"
    then have xs: "xs \<noteq> []" and a: "a = last xs"
      by (auto simp: last_opt_def split: if_splits)
    from xs have "xs = butlast xs @ [a]"
      using a by simp
    then have "distinct (butlast xs @ [a] @ d # ys)"
      using dist by (metis append_assoc)
    with that show False
      by auto
  qed
  have not_first: "?nextrec \<noteq> Some a" if "a \<in> set xs \<or> a \<in> set (tl ys)" for a
  proof
    assume "?nextrec = Some a"
    then obtain ys' where "ys = a # ys'"
      by (cases ys) auto
    with dist that show False
      by auto
  qed
  have fwd': "path (recs b') rec_next (poll_records b') (xs @ ys) None"
  proof (rule path_delete [OF fwd])
    show "map_option rec_next (recs b' a) = map_option rec_next (recs b a)"
      if "a \<in> set (butlast xs)" for a
      using that not_last [of a] next_field [of a] by (auto dest: in_set_butlastD)
    show "map_option rec_next (recs b' (last xs)) = Some ?nextrec" if "xs \<noteq> []"
      using that next_field [of "last xs"] by (simp add: last_opt_def)
    show "map_option rec_next (recs b' a) = map_option rec_next (recs b a)"
      if "a \<in> set ys" for a
      using that not_last [of a] next_field [of a] by auto
    show "poll_records b' = (if xs = [] then ?nextrec else poll_records b)"
      by (simp add: head last_opt_def)
  qed
  have bwd': "path (recs b') rec_prev (poll_records_tail b') (rev ys @ rev xs) None"
  proof (rule path_delete [OF bwd])
    show "map_option rec_prev (recs b' a) = map_option rec_prev (recs b a)"
      if "a \<in> set (butlast (rev ys))" for a
    proof -
      from that have tl: "a \<in> set (tl ys)"
        by (simp add: butlast_rev)
      then have "a \<in> set ys"
        by (cases ys) auto
      with tl show ?thesis
        using not_first [of a] prev_field [of a] by auto
    qed
    show "map_option rec_prev (recs b' (last (rev ys))) = Some (first_opt (rev xs))"
      if "rev ys \<noteq> []"
      using that prev_field [of "hd ys"] by (cases ys) simp_all
    show "map_option rec_prev (recs b' a) = map_option rec_prev (recs b a)"
      if "a \<in> set (rev xs)" for a
      using that not_first [of a] prev_field [of a] by auto
    show "poll_records_tail b' = (if rev ys = [] then first_opt (rev xs) else poll_records_tail b)"
      by (cases ys) (simp_all add: tail)
  qed
  have "holds b' (xs @ ys)"
    unfolding holds_def using dist below_n fwd' bwd' rest(1)
    by (auto simp: list_all_iff)
  moreover have "recs b' d = None"
    by (simp add: heap)
  ultimately show ?thesis
    using run entries rest by blast
qed

lemma find_split:
  "find P as = Some d \<Longrightarrow> \<exists>xs ys. as = xs @ d # ys \<and> P d \<and> (\<forall>a \<in> set xs. \<not> P a)"
proof (induction as)
  case Nil
  then show ?case by simp
next
  case (Cons a as)
  show ?case
  proof (cases "P a")
    case True
    with Cons.prems have "a # as = [] @ d # as \<and> P d \<and> (\<forall>a \<in> set []. \<not> P a)"
      by simp
    then show ?thesis by blast
  next
    case False
    with Cons obtain xs ys where "as = xs @ d # ys" "P d" "\<forall>a \<in> set xs. \<not> P a"
      by auto
    with False have "a # as = (a # xs) @ d # ys \<and> P d \<and> (\<forall>a \<in> set (a # xs). \<not> P a)"
      by simp
    then show ?thesis by blast
  qed
qed

lemma remove1_split: "d \<notin> set xs \<Longrightarrow> remove1 d (xs @ d # ys) = xs @ ys"
  by (simp add: remove1_append)

lemma update_record_holds:
  assumes holds: "holds b (xs @ d # ys)"
    and before: "\<And>a. a \<in> set xs \<Longrightarrow> fd_at b a \<noteq> Some fd"
    and here: "fd_at b d = Some fd"
  shows "\<exists>b'. update_record fd ev p b = Some (True, b') \<and>
      holds b' (xs @ d # ys) \<and>
      entry_at b' d = Some (fd, ev, p) \<and>
      (\<forall>a. a \<noteq> d \<longrightarrow> entry_at b' a = entry_at b a) \<and>
      slice_next b' = slice_next b \<and>
      n_poll_records b' = n_poll_records b \<and>
      poll_store.more b' = poll_store.more b"
proof -
  let ?h = "(recs b)(d := map_option (\<lambda>r. r\<lparr>rec_events := ev, rec_priority := p\<rparr>) (recs b d))"
  let ?b = "b\<lparr>recs := ?h\<rparr>"
  have run: "update_record fd ev p b = Some (True, ?b)"
    using find_record_present [OF holds before here] by (simp add: update_record_def)
  have links: "map_option rec_next (?h a) = map_option rec_next (recs b a)"
    "map_option rec_prev (?h a) = map_option rec_prev (recs b a)" for a
    by (simp_all add: option.map_comp comp_def)
  have "holds ?b (xs @ d # ys)"
    using holds unfolding holds_def
    by (simp add: path_cong [of _ rec_next ?h "recs b"] path_cong [of _ rec_prev ?h "recs b"] links
        del: fun_upd_apply)
  moreover from here have "entry_at ?b d = Some (fd, ev, p)"
    by (cases "recs b d") (simp_all add: entry_at_def fd_at_def)
  moreover have "\<forall>a. a \<noteq> d \<longrightarrow> entry_at ?b a = entry_at b a"
    by (simp add: entry_at_def)
  ultimately show ?thesis
    using run by (intro exI [of _ ?b]) simp
qed

text \<open>What \<^verbatim>\<open>remove_fd\<close> and \<^verbatim>\<open>modify_fd\<close> do, in terms of the first record with the descriptor.\<close>

lemma unlink_record_find:
  assumes holds: "holds b as"
  shows "case find (\<lambda>a. fd_at b a = Some fd) as of
      None \<Rightarrow> unlink_record fd b = Some (False, b)
    | Some d \<Rightarrow>
        (\<exists>b'. unlink_record fd b = Some (True, b') \<and>
           holds b' (remove1 d as) \<and>
           (\<forall>a \<in> set (remove1 d as). entry_at b' a = entry_at b a) \<and>
           recs b' d = None \<and>
           slice_next b' = slice_next b \<and>
           n_poll_records b' = n_poll_records b - 1 \<and>
           poll_store.more b' = poll_store.more b)"
proof (cases "find (\<lambda>a. fd_at b a = Some fd) as")
  case None
  then have "\<And>a. a \<in> set as \<Longrightarrow> fd_at b a \<noteq> Some fd"
    by (simp add: find_None_iff)
  with holds have "unlink_record fd b = Some (False, b)"
    by (rule unlink_record_absent)
  with None show ?thesis by simp
next
  case (Some d)
  from find_split [OF this] obtain xs ys where
    as: "as = xs @ d # ys" and here: "fd_at b d = Some fd"
    and before: "\<And>a. a \<in> set xs \<Longrightarrow> fd_at b a \<noteq> Some fd"
    by blast
  from holds have "distinct as"
    by (simp add: holds_def)
  with as have "remove1 d as = xs @ ys"
    by (simp add: remove1_split)
  with unlink_record_holds [OF holds [unfolded as] before here] Some show ?thesis
    by simp
qed

lemma update_record_find:
  assumes holds: "holds b as"
  shows "case find (\<lambda>a. fd_at b a = Some fd) as of
      None \<Rightarrow> update_record fd ev p b = Some (False, b)
    | Some d \<Rightarrow>
        (\<exists>b'. update_record fd ev p b = Some (True, b') \<and>
           holds b' as \<and>
           entry_at b' d = Some (fd, ev, p) \<and>
           (\<forall>a. a \<noteq> d \<longrightarrow> entry_at b' a = entry_at b a) \<and>
           slice_next b' = slice_next b \<and>
           n_poll_records b' = n_poll_records b \<and>
           poll_store.more b' = poll_store.more b)"
proof (cases "find (\<lambda>a. fd_at b a = Some fd) as")
  case None
  then have "\<And>a. a \<in> set as \<Longrightarrow> fd_at b a \<noteq> Some fd"
    by (simp add: find_None_iff)
  with holds have "update_record fd ev p b = Some (False, b)"
    by (rule update_record_absent)
  with None show ?thesis by simp
next
  case (Some d)
  from find_split [OF this] obtain xs ys where
    as: "as = xs @ d # ys" and here: "fd_at b d = Some fd"
    and before: "\<And>a. a \<in> set xs \<Longrightarrow> fd_at b a \<noteq> Some fd"
    by blast
  from update_record_holds [OF holds [unfolded as] before here, of ev p] Some as show ?thesis
    by simp
qed

text \<open>Linking a record into any list a store holds, sorted or not.\<close>

lemma link_record_any:
  assumes holds: "holds b as"
  shows "\<exists>b'. link_record fd ev p b = Some b' \<and>
      holds b' (rev (dropWhile (\<lambda>a. sint p < priority_at b a) (rev as)) @ slice_next b #
                rev (takeWhile (\<lambda>a. sint p < priority_at b a) (rev as))) \<and>
      entry_at b' (slice_next b) = Some (fd, ev, p) \<and>
      (\<forall>a \<in> set as. entry_at b' a = entry_at b a) \<and>
      slice_next b' = Suc (slice_next b) \<and>
      n_poll_records b' = n_poll_records b + 1 \<and>
      poll_store.more b' = poll_store.more b"
proof -
  let ?P = "\<lambda>a. sint p < priority_at b a"
  let ?xs = "rev (dropWhile ?P (rev as))" and ?ys = "rev (takeWhile ?P (rev as))"
  have split: "as = ?xs @ ?ys"
    using takeWhile_dropWhile_id [of ?P "rev as"] by (metis rev_append rev_rev_ident)
  have holds': "holds b (?xs @ ?ys)"
    using holds split by simp
  have above: "sint p < priority_at b a" if "a \<in> set ?ys" for a
    using that by (auto dest: set_takeWhileD)
  have below: "\<not> sint p < priority_at b (last ?xs)" if "?xs \<noteq> []"
  proof -
    from that have "dropWhile ?P (rev as) \<noteq> []"
      by simp
    then have "\<not> ?P (hd (dropWhile ?P (rev as)))"
      by (rule hd_dropWhile)
    with that show ?thesis
      by (simp add: last_rev)
  qed
  from link_record_holds [OF holds' above below, of fd ev] split show ?thesis
    by (metis (no_types, lifting))
qed

lemma fd_at_entry: "entry_at b' a = entry_at b a \<Longrightarrow> fd_at b' a = fd_at b a"
  by (cases "recs b a"; cases "recs b' a") (auto simp: entry_at_def fd_at_def)

lemma more_main_context:
  "poll_store.more (l' :: GPollLoopBackend) = poll_store.more l \<Longrightarrow> main_context l' = main_context l"
  by (cases l'; cases l) simp

lemma fd_at_more_update [simp]: "fd_at (l\<lparr>poll_changed := x\<rparr>) = fd_at l"
  by (simp add: fd_at_def fun_eq_iff)

text \<open>
  Claim C6, as amended. Let a store hold a list. If some record has the descriptor \<open>fd\<close>,
  both \<^verbatim>\<open>remove_fd\<close> functions unlink and free exactly one record, the first one with
  that descriptor from the head; all other records stay where they are, with their
  contents, also further records with the same descriptor, and the count goes down by one.
  If no record has the descriptor, \<^verbatim>\<open>g_baseline_poller_remove_fd\<close> leaves the store as it
  is and logs a critical warning; in particular a second removal of a descriptor that was in
  the store once is flagged. \<^verbatim>\<open>g_poll_context_remove_fd\<close> also leaves the list as it is,
  but it flags nothing: it sets \<^verbatim>\<open>poll_changed\<close>, wakes the main context up and returns
  \<^verbatim>\<open>TRUE\<close>.
\<close>

theorem remove_fd_first_match:
  assumes "holds b as" and "holds l ls"
  shows
    "(case find (\<lambda>a. fd_at b a = Some fd) as of
        None \<Rightarrow> g_baseline_poller_remove_fd b fd = Some (b, [CriticalWarning])
      | Some d \<Rightarrow>
          (\<exists>b'. g_baseline_poller_remove_fd b fd = Some (b', []) \<and>
             holds b' (remove1 d as) \<and>
             (\<forall>a \<in> set (remove1 d as). entry_at b' a = entry_at b a) \<and>
             recs b' d = None \<and>
             n_poll_records b' = n_poll_records b - 1 \<and>
             (filter (\<lambda>a. fd_at b a = Some fd) as = [d] \<longrightarrow>
                g_baseline_poller_remove_fd b' fd = Some (b', [CriticalWarning])))) \<and>
     (case find (\<lambda>a. fd_at l a = Some fd) ls of
        None \<Rightarrow>
          g_poll_context_remove_fd l fd =
            Some (True, l\<lparr>poll_changed := True\<rparr>,
                  [LockBackend, UnlockBackend, MainContextWakeup (main_context l)])
      | Some d \<Rightarrow>
          (\<exists>l'. g_poll_context_remove_fd l fd =
               Some (True, l', [LockBackend, UnlockBackend, MainContextWakeup (main_context l)]) \<and>
             holds l' (remove1 d ls) \<and>
             (\<forall>a \<in> set (remove1 d ls). entry_at l' a = entry_at l a) \<and>
             recs l' d = None \<and>
             n_poll_records l' = n_poll_records l - 1))"
proof -
  have baseline: "case find (\<lambda>a. fd_at b a = Some fd) as of
        None \<Rightarrow> g_baseline_poller_remove_fd b fd = Some (b, [CriticalWarning])
      | Some d \<Rightarrow>
          (\<exists>b'. g_baseline_poller_remove_fd b fd = Some (b', []) \<and>
             holds b' (remove1 d as) \<and>
             (\<forall>a \<in> set (remove1 d as). entry_at b' a = entry_at b a) \<and>
             recs b' d = None \<and>
             n_poll_records b' = n_poll_records b - 1 \<and>
             (filter (\<lambda>a. fd_at b a = Some fd) as = [d] \<longrightarrow>
                g_baseline_poller_remove_fd b' fd = Some (b', [CriticalWarning])))"
  proof (cases "find (\<lambda>a. fd_at b a = Some fd) as")
    case None
    with unlink_record_find [OF assms(1), of fd] show ?thesis
      by (simp add: g_baseline_poller_remove_fd_def)
  next
    case (Some d)
    from unlink_record_find [OF assms(1), of fd]
    have "\<exists>b'. unlink_record fd b = Some (True, b') \<and>
           holds b' (remove1 d as) \<and>
           (\<forall>a \<in> set (remove1 d as). entry_at b' a = entry_at b a) \<and>
           recs b' d = None \<and>
           slice_next b' = slice_next b \<and>
           n_poll_records b' = n_poll_records b - 1 \<and>
           poll_store.more b' = poll_store.more b"
      by (simp only: Some option.case)
    then obtain b' where
      run: "unlink_record fd b = Some (True, b')"
      and held: "holds b' (remove1 d as)"
      and same: "\<forall>a \<in> set (remove1 d as). entry_at b' a = entry_at b a"
      and rest: "recs b' d = None" "n_poll_records b' = n_poll_records b - 1"
      by blast
    have again: "g_baseline_poller_remove_fd b' fd = Some (b', [CriticalWarning])"
      if only: "filter (\<lambda>a. fd_at b a = Some fd) as = [d]"
    proof -
      have "fd_at b' a \<noteq> Some fd" if a: "a \<in> set (remove1 d as)" for a
      proof
        assume "fd_at b' a = Some fd"
        moreover from same a have "fd_at b' a = fd_at b a"
          by (intro fd_at_entry) simp
        ultimately have "fd_at b a = Some fd"
          by simp
        moreover from a have "a \<in> set as"
          using set_remove1_subset [of d as] by blast
        ultimately have "a \<in> set (filter (\<lambda>a. fd_at b a = Some fd) as)"
          by simp
        with only have "a = d"
          by simp
        moreover from assms(1) have "distinct as"
          by (simp add: holds_def)
        ultimately show False
          using a by simp
      qed
      with held have "unlink_record fd b' = Some (False, b')"
        by (rule unlink_record_absent)
      then show ?thesis
        by (simp add: g_baseline_poller_remove_fd_def)
    qed
    have "\<exists>b'. g_baseline_poller_remove_fd b fd = Some (b', []) \<and>
             holds b' (remove1 d as) \<and>
             (\<forall>a \<in> set (remove1 d as). entry_at b' a = entry_at b a) \<and>
             recs b' d = None \<and>
             n_poll_records b' = n_poll_records b - 1 \<and>
             (filter (\<lambda>a. fd_at b a = Some fd) as = [d] \<longrightarrow>
                g_baseline_poller_remove_fd b' fd = Some (b', [CriticalWarning]))"
    proof (intro exI conjI impI)
      show "g_baseline_poller_remove_fd b fd = Some (b', [])"
        using run by (simp add: g_baseline_poller_remove_fd_def)
    qed (fact held same rest again)+
    then show ?thesis
      by (simp only: Some option.case)
  qed
  have loop: "case find (\<lambda>a. fd_at l a = Some fd) ls of
        None \<Rightarrow>
          g_poll_context_remove_fd l fd =
            Some (True, l\<lparr>poll_changed := True\<rparr>,
                  [LockBackend, UnlockBackend, MainContextWakeup (main_context l)])
      | Some d \<Rightarrow>
          (\<exists>l'. g_poll_context_remove_fd l fd =
               Some (True, l', [LockBackend, UnlockBackend, MainContextWakeup (main_context l)]) \<and>
             holds l' (remove1 d ls) \<and>
             (\<forall>a \<in> set (remove1 d ls). entry_at l' a = entry_at l a) \<and>
             recs l' d = None \<and>
             n_poll_records l' = n_poll_records l - 1)"
  proof (cases "find (\<lambda>a. fd_at l a = Some fd) ls")
    case None
    with unlink_record_find [OF assms(2), of fd] show ?thesis
      by (simp add: g_poll_context_remove_fd_def)
  next
    case (Some d)
    from unlink_record_find [OF assms(2), of fd]
    have "\<exists>l'. unlink_record fd l = Some (True, l') \<and>
           holds l' (remove1 d ls) \<and>
           (\<forall>a \<in> set (remove1 d ls). entry_at l' a = entry_at l a) \<and>
           recs l' d = None \<and>
           slice_next l' = slice_next l \<and>
           n_poll_records l' = n_poll_records l - 1 \<and>
           poll_store.more l' = poll_store.more l"
      by (simp only: Some option.case)
    then obtain l1 where
      run: "unlink_record fd l = Some (True, l1)"
      and held: "holds l1 (remove1 d ls)"
      and same: "\<forall>a \<in> set (remove1 d ls). entry_at l1 a = entry_at l a"
      and rest: "recs l1 d = None" "n_poll_records l1 = n_poll_records l - 1"
      and more: "poll_store.more l1 = poll_store.more l"
      by blast
    have "g_poll_context_remove_fd l fd =
        Some (True, l1\<lparr>poll_changed := True\<rparr>,
              [LockBackend, UnlockBackend, MainContextWakeup (main_context l)])"
      using run more_main_context [OF more] by (simp add: g_poll_context_remove_fd_def)
    moreover have "holds (l1\<lparr>poll_changed := True\<rparr>) (remove1 d ls)"
      "\<forall>a \<in> set (remove1 d ls). entry_at (l1\<lparr>poll_changed := True\<rparr>) a = entry_at l a"
      "recs (l1\<lparr>poll_changed := True\<rparr>) d = None"
      "n_poll_records (l1\<lparr>poll_changed := True\<rparr>) = n_poll_records l - 1"
      using held same rest by simp_all
    ultimately have "\<exists>l'. g_poll_context_remove_fd l fd =
               Some (True, l', [LockBackend, UnlockBackend, MainContextWakeup (main_context l)]) \<and>
             holds l' (remove1 d ls) \<and>
             (\<forall>a \<in> set (remove1 d ls). entry_at l' a = entry_at l a) \<and>
             recs l' d = None \<and>
             n_poll_records l' = n_poll_records l - 1"
      by blast
    then show ?thesis
      by (simp only: Some option.case)
  qed
  from baseline loop show ?thesis ..
qed

lemma fds_four:
  "map (fd_at baseline_four) [1, 3, 2, 0] = [Some 11, Some 13, Some 12, Some 10]"
  "map (fd_at loop_four) [1, 3, 2, 0] = [Some 11, Some 13, Some 12, Some 10]"
  by (simp_all add: fd_at_def baseline_four_def loop_four_def four_cells_def)

theorem remove_fd_first_match_witness:
  "holds baseline_four [1, 3, 2, 0] \<and> holds loop_four [1, 3, 2, 0] \<and>
   find (\<lambda>a. fd_at baseline_four a = Some 13) [1, 3, 2, 0] = Some 3 \<and>
   filter (\<lambda>a. fd_at baseline_four a = Some 13) [1, 3, 2, 0] = [3] \<and>
   (\<exists>b'. g_baseline_poller_remove_fd baseline_four 13 = Some (b', []) \<and>
      holds b' [1, 2, 0] \<and> n_poll_records b' = 3 \<and>
      g_baseline_poller_remove_fd b' 13 = Some (b', [CriticalWarning])) \<and>
   find (\<lambda>a. fd_at baseline_four a = Some 99) [1, 3, 2, 0] = None \<and>
   g_baseline_poller_remove_fd baseline_four 99 = Some (baseline_four, [CriticalWarning]) \<and>
   (\<exists>l'. g_poll_context_remove_fd loop_four 13 =
        Some (True, l', [LockBackend, UnlockBackend, MainContextWakeup 7]) \<and>
      holds l' [1, 2, 0] \<and> n_poll_records l' = 3)"
proof -
  have found: "find (\<lambda>a. fd_at baseline_four a = Some 13) [1, 3, 2, 0] = Some 3"
    "find (\<lambda>a. fd_at loop_four a = Some 13) [1, 3, 2, 0] = Some 3"
    "filter (\<lambda>a. fd_at baseline_four a = Some 13) [1, 3, 2, 0] = [3]"
    and absent: "find (\<lambda>a. fd_at baseline_four a = Some 99) [1, 3, 2, 0] = None"
    using fds_four by simp_all
  have fields: "n_poll_records baseline_four = 4" "n_poll_records loop_four = 4"
    "main_context loop_four = 7"
    by (simp_all add: baseline_four_def loop_four_def)
  note present = remove_fd_first_match [OF holds_four, of 13]
  note missing = remove_fd_first_match [OF holds_four, of 99]
  have "\<exists>b'. g_baseline_poller_remove_fd baseline_four 13 = Some (b', []) \<and>
      holds b' [1, 2, 0] \<and> n_poll_records b' = 3 \<and>
      g_baseline_poller_remove_fd b' 13 = Some (b', [CriticalWarning])"
    using present [THEN conjunct1] unfolding found option.case fields by fastforce
  moreover have "\<exists>l'. g_poll_context_remove_fd loop_four 13 =
        Some (True, l', [LockBackend, UnlockBackend, MainContextWakeup 7]) \<and>
      holds l' [1, 2, 0] \<and> n_poll_records l' = 3"
    using present [THEN conjunct2] unfolding found option.case fields by fastforce
  moreover have "g_baseline_poller_remove_fd baseline_four 99 = Some (baseline_four, [CriticalWarning])"
    using missing [THEN conjunct1] unfolding absent option.case .
  ultimately show ?thesis
    using holds_four found(1,3) absent by blast
qed

text \<open>
  \<^verbatim>\<open>g_poll_context_remove_fd\<close> does not flag a descriptor that is not in the store: it
  reports \<^verbatim>\<open>TRUE\<close> and logs nothing.
\<close>

theorem remove_fd_absent_counterexample:
  "g_poll_context_remove_fd loop_four 99 =
     Some (True, loop_four, [LockBackend, UnlockBackend, MainContextWakeup 7])"
  by (simp add: g_poll_context_remove_fd_def unlink_record_def find_record.simps
      loop_four_def four_cells_def)

subsection \<open>Waking the main context up\<close>

text \<open>
  Claim C8, as amended. On a store that holds a list, \<^verbatim>\<open>g_poll_context_add_fd\<close>,
  \<^verbatim>\<open>g_poll_context_modify_fd\<close> and \<^verbatim>\<open>g_poll_context_remove_fd\<close> (part_001) return
  \<^verbatim>\<open>TRUE\<close> with the list changed as asked and \<^verbatim>\<open>poll_changed\<close> set; the calls they make
  are taking the lock, releasing it and, last, waking the main context up. The functions
  \<^verbatim>\<open>g_baseline_poller_add_fd\<close>, \<^verbatim>\<open>g_baseline_poller_modify_fd\<close> and
  \<^verbatim>\<open>g_baseline_poller_remove_fd\<close> (gmain-poll.c) make no call, but for the critical
  warning about a descriptor that is not in the store.
\<close>

theorem mutation_then_wake:
  assumes "holds l ls" and "holds b as"
  shows
    "(\<exists>l'. g_poll_context_add_fd l fd ev p =
          Some (True, l', [LockBackend, UnlockBackend, MainContextWakeup (main_context l)]) \<and>
        poll_changed l' \<and>
        holds l' (rev (dropWhile (\<lambda>a. sint p < priority_at l a) (rev ls)) @ slice_next l #
                  rev (takeWhile (\<lambda>a. sint p < priority_at l a) (rev ls))) \<and>
        entry_at l' (slice_next l) = Some (fd, ev, p)) \<and>
     (\<exists>l'. g_poll_context_modify_fd l fd ev p =
          Some (True, l', [LockBackend, UnlockBackend, MainContextWakeup (main_context l)]) \<and>
        poll_changed l' \<and> holds l' ls \<and>
        (case find (\<lambda>a. fd_at l a = Some fd) ls of
           None \<Rightarrow> recs l' = recs l
         | Some d \<Rightarrow> entry_at l' d = Some (fd, ev, p))) \<and>
     (\<exists>l'. g_poll_context_remove_fd l fd =
          Some (True, l', [LockBackend, UnlockBackend, MainContextWakeup (main_context l)]) \<and>
        poll_changed l' \<and>
        holds l' (case find (\<lambda>a. fd_at l a = Some fd) ls of None \<Rightarrow> ls | Some d \<Rightarrow> remove1 d ls)) \<and>
     (\<exists>b'. g_baseline_poller_add_fd b fd ev p = Some (b', [])) \<and>
     (\<exists>b'. g_baseline_poller_modify_fd b fd ev p =
          Some (b', if find (\<lambda>a. fd_at b a = Some fd) as = None then [CriticalWarning] else [])) \<and>
     (\<exists>b'. g_baseline_poller_remove_fd b fd =
          Some (b', if find (\<lambda>a. fd_at b a = Some fd) as = None then [CriticalWarning] else []))"
proof -
  let ?wake = "[LockBackend, UnlockBackend, MainContextWakeup (main_context l)]"
  have add: "\<exists>l'. g_poll_context_add_fd l fd ev p = Some (True, l', ?wake) \<and>
        poll_changed l' \<and>
        holds l' (rev (dropWhile (\<lambda>a. sint p < priority_at l a) (rev ls)) @ slice_next l #
                  rev (takeWhile (\<lambda>a. sint p < priority_at l a) (rev ls))) \<and>
        entry_at l' (slice_next l) = Some (fd, ev, p)"
  proof -
    from link_record_any [OF assms(1), of fd ev p] obtain l1 where
      run: "link_record fd ev p l = Some l1"
      and held: "holds l1 (rev (dropWhile (\<lambda>a. sint p < priority_at l a) (rev ls)) @ slice_next l #
                  rev (takeWhile (\<lambda>a. sint p < priority_at l a) (rev ls)))"
      and new: "entry_at l1 (slice_next l) = Some (fd, ev, p)"
      and more: "poll_store.more l1 = poll_store.more l"
      by blast
    have "g_poll_context_add_fd l fd ev p = Some (True, l1\<lparr>poll_changed := True\<rparr>, ?wake)"
      using run more_main_context [OF more] by (simp add: g_poll_context_add_fd_def)
    moreover have "poll_changed (l1\<lparr>poll_changed := True\<rparr>)"
      "holds (l1\<lparr>poll_changed := True\<rparr>)
         (rev (dropWhile (\<lambda>a. sint p < priority_at l a) (rev ls)) @ slice_next l #
          rev (takeWhile (\<lambda>a. sint p < priority_at l a) (rev ls)))"
      "entry_at (l1\<lparr>poll_changed := True\<rparr>) (slice_next l) = Some (fd, ev, p)"
      using held new by simp_all
    ultimately show ?thesis by blast
  qed
  have modify: "\<exists>l'. g_poll_context_modify_fd l fd ev p = Some (True, l', ?wake) \<and>
        poll_changed l' \<and> holds l' ls \<and>
        (case find (\<lambda>a. fd_at l a = Some fd) ls of
           None \<Rightarrow> recs l' = recs l
         | Some d \<Rightarrow> entry_at l' d = Some (fd, ev, p))"
  proof (cases "find (\<lambda>a. fd_at l a = Some fd) ls")
    case None
    from update_record_find [OF assms(1), of fd ev p]
    have "update_record fd ev p l = Some (False, l)"
      by (simp only: None option.case)
    then have "g_poll_context_modify_fd l fd ev p = Some (True, l\<lparr>poll_changed := True\<rparr>, ?wake)"
      by (simp add: g_poll_context_modify_fd_def)
    moreover have "poll_changed (l\<lparr>poll_changed := True\<rparr>)" "holds (l\<lparr>poll_changed := True\<rparr>) ls"
      "recs (l\<lparr>poll_changed := True\<rparr>) = recs l"
      using assms(1) by simp_all
    ultimately show ?thesis
      unfolding None option.case by blast
  next
    case (Some d)
    from update_record_find [OF assms(1), of fd ev p]
    have "\<exists>b'. update_record fd ev p l = Some (True, b') \<and> holds b' ls \<and>
           entry_at b' d = Some (fd, ev, p) \<and>
           (\<forall>a. a \<noteq> d \<longrightarrow> entry_at b' a = entry_at l a) \<and>
           slice_next b' = slice_next l \<and>
           n_poll_records b' = n_poll_records l \<and>
           poll_store.more b' = poll_store.more l"
      by (simp only: Some option.case)
    then obtain l1 where run: "update_record fd ev p l = Some (True, l1)"
      and held: "holds l1 ls" and new: "entry_at l1 d = Some (fd, ev, p)"
      and more: "poll_store.more l1 = poll_store.more l"
      by blast
    have "g_poll_context_modify_fd l fd ev p = Some (True, l1\<lparr>poll_changed := True\<rparr>, ?wake)"
      using run more_main_context [OF more] by (simp add: g_poll_context_modify_fd_def)
    moreover have "poll_changed (l1\<lparr>poll_changed := True\<rparr>)" "holds (l1\<lparr>poll_changed := True\<rparr>) ls"
      "entry_at (l1\<lparr>poll_changed := True\<rparr>) d = Some (fd, ev, p)"
      using held new by simp_all
    ultimately show ?thesis
      unfolding Some option.case by blast
  qed
  have remove: "\<exists>l'. g_poll_context_remove_fd l fd = Some (True, l', ?wake) \<and>
        poll_changed l' \<and>
        holds l' (case find (\<lambda>a. fd_at l a = Some fd) ls of None \<Rightarrow> ls | Some d \<Rightarrow> remove1 d ls)"
  proof (cases "find (\<lambda>a. fd_at l a = Some fd) ls")
    case None
    from unlink_record_find [OF assms(1), of fd]
    have "unlink_record fd l = Some (False, l)"
      by (simp only: None option.case)
    then have "g_poll_context_remove_fd l fd = Some (True, l\<lparr>poll_changed := True\<rparr>, ?wake)"
      by (simp add: g_poll_context_remove_fd_def)
    moreover have "poll_changed (l\<lparr>poll_changed := True\<rparr>)" "holds (l\<lparr>poll_changed := True\<rparr>) ls"
      using assms(1) by simp_all
    ultimately show ?thesis
      unfolding None option.case by blast
  next
    case (Some d)
    from unlink_record_find [OF assms(1), of fd]
    have "\<exists>l'. unlink_record fd l = Some (True, l') \<and>
           holds l' (remove1 d ls) \<and>
           (\<forall>a \<in> set (remove1 d ls). entry_at l' a = entry_at l a) \<and>
           recs l' d = None \<and>
           slice_next l' = slice_next l \<and>
           n_poll_records l' = n_poll_records l - 1 \<and>
           poll_store.more l' = poll_store.more l"
      by (simp only: Some option.case)
    then obtain l1 where run: "unlink_record fd l = Some (True, l1)"
      and held: "holds l1 (remove1 d ls)"
      and more: "poll_store.more l1 = poll_store.more l"
      by blast
    have "g_poll_context_remove_fd l fd = Some (True, l1\<lparr>poll_changed := True\<rparr>, ?wake)"
      using run more_main_context [OF more] by (simp add: g_poll_context_remove_fd_def)
    moreover have "poll_changed (l1\<lparr>poll_changed := True\<rparr>)"
      "holds (l1\<lparr>poll_changed := True\<rparr>) (remove1 d ls)"
      using held by simp_all
    ultimately show ?thesis
      unfolding Some option.case by blast
  qed
  have b_add: "\<exists>b'. g_baseline_poller_add_fd b fd ev p = Some (b', [])"
    using link_record_any [OF assms(2), of fd ev p]
    by (auto simp: g_baseline_poller_add_fd_def)
  have b_modify: "\<exists>b'. g_baseline_poller_modify_fd b fd ev p =
      Some (b', if find (\<lambda>a. fd_at b a = Some fd) as = None then [CriticalWarning] else [])"
    using update_record_find [OF assms(2), of fd ev p]
    by (cases "find (\<lambda>a. fd_at b a = Some fd) as")
      (auto simp: g_baseline_poller_modify_fd_def)
  have b_remove: "\<exists>b'. g_baseline_poller_remove_fd b fd =
      Some (b', if find (\<lambda>a. fd_at b a = Some fd) as = None then [CriticalWarning] else [])"
    using unlink_record_find [OF assms(2), of fd]
    by (cases "find (\<lambda>a. fd_at b a = Some fd) as")
      (auto simp: g_baseline_poller_remove_fd_def)
  from add modify remove b_add b_modify b_remove show ?thesis
    by blast
qed

theorem mutation_then_wake_witness:
  "holds loop_four [1, 3, 2, 0] \<and> holds baseline_four [1, 3, 2, 0] \<and>
   (\<exists>l'. g_poll_context_add_fd loop_four 14 1 1 =
        Some (True, l', [LockBackend, UnlockBackend, MainContextWakeup 7]) \<and>
      poll_changed l' \<and> holds l' [1, 3, 4, 2, 0] \<and> entry_at l' 4 = Some (14, 1, 1)) \<and>
   (\<exists>l'. g_poll_context_modify_fd loop_four 12 4 0 =
        Some (True, l', [LockBackend, UnlockBackend, MainContextWakeup 7]) \<and>
      poll_changed l' \<and> holds l' [1, 3, 2, 0] \<and> entry_at l' 2 = Some (12, 4, 0)) \<and>
   (\<exists>l'. g_poll_context_remove_fd loop_four 12 =
        Some (True, l', [LockBackend, UnlockBackend, MainContextWakeup 7]) \<and>
      poll_changed l' \<and> holds l' [1, 3, 0]) \<and>
   (\<exists>b'. g_baseline_poller_add_fd baseline_four 14 1 1 = Some (b', [])) \<and>
   (\<exists>b'. g_baseline_poller_modify_fd baseline_four 12 4 0 = Some (b', [])) \<and>
   (\<exists>b'. g_baseline_poller_remove_fd baseline_four 99 = Some (b', [CriticalWarning]))"
proof -
  have place: "rev (dropWhile (\<lambda>a. sint (1 :: gint) < priority_at loop_four a) (rev [1, 3, 2, 0])) @
      slice_next loop_four # rev (takeWhile (\<lambda>a. sint (1 :: gint) < priority_at loop_four a) (rev [1, 3, 2, 0])) =
      [1, 3, 4, 2, 0]"
    by (simp add: priority_at_def loop_four_def four_cells_def)
  have found: "find (\<lambda>a. fd_at loop_four a = Some 12) [1, 3, 2, 0] = Some 2"
    "find (\<lambda>a. fd_at baseline_four a = Some 12) [1, 3, 2, 0] = Some 2"
    "find (\<lambda>a. fd_at baseline_four a = Some 99) [1, 3, 2, 0] = None"
    using fds_four by simp_all
  have fields: "slice_next loop_four = 4" "main_context loop_four = 7"
    by (simp_all add: loop_four_def)
  note adding = mutation_then_wake [OF holds_four(2,1), of 14 1 1]
  note changing = mutation_then_wake [OF holds_four(2,1), of 12 4 0]
  note missing = mutation_then_wake [OF holds_four(2,1), of 99 4 0]
  have "\<exists>l'. g_poll_context_add_fd loop_four 14 1 1 =
        Some (True, l', [LockBackend, UnlockBackend, MainContextWakeup 7]) \<and>
      poll_changed l' \<and> holds l' [1, 3, 4, 2, 0] \<and> entry_at l' 4 = Some (14, 1, 1)"
    using adding [THEN conjunct1] unfolding place unfolding fields .
  moreover have "\<exists>l'. g_poll_context_modify_fd loop_four 12 4 0 =
        Some (True, l', [LockBackend, UnlockBackend, MainContextWakeup 7]) \<and>
      poll_changed l' \<and> holds l' [1, 3, 2, 0] \<and> entry_at l' 2 = Some (12, 4, 0)"
    using changing [THEN conjunct2, THEN conjunct1] unfolding found option.case fields .
  moreover have "\<exists>l'. g_poll_context_remove_fd loop_four 12 =
        Some (True, l', [LockBackend, UnlockBackend, MainContextWakeup 7]) \<and>
      poll_changed l' \<and> holds l' [1, 3, 0]"
    using changing [THEN conjunct2, THEN conjunct2, THEN conjunct1]
    unfolding found option.case fields by simp
  moreover have "\<exists>b'. g_baseline_poller_add_fd baseline_four 14 1 1 = Some (b', [])"
    using adding by blast
  moreover have "\<exists>b'. g_baseline_poller_modify_fd baseline_four 12 4 0 = Some (b', [])"
    using changing [THEN conjunct2, THEN conjunct2, THEN conjunct2, THEN conjunct2, THEN conjunct1]
    unfolding found by simp
  moreover have "\<exists>b'. g_baseline_poller_remove_fd baseline_four 99 = Some (b', [CriticalWarning])"
    using missing [THEN conjunct2, THEN conjunct2, THEN conjunct2, THEN conjunct2, THEN conjunct2]
    unfolding found by simp
  ultimately show ?thesis
    using holds_four by blast
qed

text \<open>
  \<^verbatim>\<open>g_baseline_poller_add_fd\<close> links the record in and makes no call at all: nothing is
  woken up.
\<close>

theorem baseline_add_counterexample:
  "map_option snd (g_baseline_poller_add_fd baseline_four 14 1 1) = Some []"
  by (simp add: g_baseline_poller_add_fd_def link_record_def scan_back.simps Let_def
      baseline_four_def four_cells_def)

subsection \<open>The query\<close>

lemma slots_from_length [simp]: "length (slots_from h sel n_fds k fds) = length fds"
  by (simp add: slots_from_def)

lemma slots_from_nth:
  "i < length fds \<Longrightarrow>
   slots_from h sel n_fds k fds ! i =
     (if k \<le> i \<and> i < k + length sel \<and> int i < n_fds
      then (case h (sel ! (i - k)) of
              None \<Rightarrow> fds ! i
            | Some r \<Rightarrow> if rec_events r \<noteq> 0 then slot_for r else fds ! i)
      else fds ! i)"
  by (simp add: slots_from_def split: option.splits)

lemma slots_from_Nil [simp]: "slots_from h [] n_fds k fds = fds"
  by (rule nth_equalityI) (auto simp: slots_from_nth)

lemma slots_from_Cons:
  assumes cell: "h a = Some r" and cap: "n_fds \<le> int (length fds)"
  shows "slots_from h sel n_fds (Suc k)
           (if int k < n_fds \<and> rec_events r \<noteq> 0 then fds[k := slot_for r] else fds) =
         slots_from h (a # sel) n_fds k fds"
proof (rule nth_equalityI)
  let ?fds = "if int k < n_fds \<and> rec_events r \<noteq> 0 then fds[k := slot_for r] else fds"
  show "length (slots_from h sel n_fds (Suc k) ?fds) = length (slots_from h (a # sel) n_fds k fds)"
    by simp
  fix i
  assume "i < length (slots_from h sel n_fds (Suc k) ?fds)"
  moreover have "length ?fds = length fds"
    by simp
  ultimately have i: "i < length fds" "i < length ?fds"
    by simp_all
  consider "i < k" | "i = k" | "k < i"
    by linarith
  then show "slots_from h sel n_fds (Suc k) ?fds ! i = slots_from h (a # sel) n_fds k fds ! i"
  proof cases
    case 1
    with i show ?thesis
      by (auto simp: slots_from_nth split: option.splits)
  next
    case 2
    with i cell show ?thesis
      by (simp add: slots_from_nth)
  next
    case 3
    then obtain j where j: "i - k = Suc j" "i - Suc k = j"
      by (cases "i - k") auto
    with 3 i show ?thesis
      by (auto simp: slots_from_nth split: option.splits)
  qed
qed

lemma query_loop_path:
  assumes "path h rec_next cur (xs @ rest) None"
    and "\<And>a r. a \<in> set xs \<Longrightarrow> h a = Some r \<Longrightarrow> sint (rec_priority r) \<le> sint m"
    and "\<And>a r. first_opt rest = Some a \<Longrightarrow> h a = Some r \<Longrightarrow> \<not> sint (rec_priority r) \<le> sint m"
    and "int k + int (length xs) < 2 ^ 31" and "n_fds \<le> int (length fds)"
  shows "query_loop h m n_fds cur (int k) fds =
     Some (int k + int (length xs), slots_from h xs n_fds k fds)"
  using assms(1,2,4,5)
proof (induction xs arbitrary: cur k fds)
  case Nil
  show ?case
  proof (cases rest)
    case Nil
    with Nil.prems(1) have "cur = None" by simp
    then show ?thesis
      by (subst query_loop.simps) simp
  next
    case (Cons a rest')
    with Nil.prems(1) obtain r where "cur = Some a" "h a = Some r"
      by (auto split: option.splits)
    moreover from this assms(3) [of a r] Cons have "\<not> sint (rec_priority r) \<le> sint m"
      by (simp add: first_opt_def)
    ultimately show ?thesis
      by (subst query_loop.simps) simp
  qed
next
  case (Cons x xs)
  from Cons.prems(1) obtain r where cur: "cur = Some x" and r: "h x = Some r"
    and rest: "path h rec_next (rec_next r) (xs @ rest) None"
    by (auto split: option.splits)
  from Cons.prems(2) [of x r] r have low: "sint (rec_priority r) \<le> sint m"
    by simp
  let ?fds = "if int k < n_fds \<and> rec_events r \<noteq> 0 then fds[k := slot_for r] else fds"
  have step: "query_loop h m n_fds cur (int k) fds =
      query_loop h m n_fds (rec_next r) (int (Suc k)) ?fds"
    using cur r low Cons.prems(3,4)
    by (subst query_loop.simps) (simp add: add.commute)
  have "query_loop h m n_fds (rec_next r) (int (Suc k)) ?fds =
      Some (int (Suc k) + int (length xs), slots_from h xs n_fds (Suc k) ?fds)"
  proof (rule Cons.IH [OF rest])
    show "sint (rec_priority r') \<le> sint m" if "a \<in> set xs" "h a = Some r'" for a r'
      using Cons.prems(2) [of a r'] that by simp
    show "int (Suc k) + int (length xs) < 2 ^ 31"
      using Cons.prems(3) by simp
    show "n_fds \<le> int (length ?fds)"
      using Cons.prems(4) by simp
  qed
  with step show ?case
    using slots_from_Cons [of h x r n_fds fds xs k] r Cons.prems(4) by simp
qed

lemma query_loop_holds:
  assumes holds: "holds b as" and sorted: "sorted (map (priority_at b) as)"
    and room: "length as < 2 ^ 31" and cap: "n_fds \<le> int (length fds)"
  shows "query_loop (recs b) m n_fds (poll_records b) 0 fds =
     Some (int (length (filter (\<lambda>a. priority_at b a \<le> sint m) as)),
           slots_from (recs b) (filter (\<lambda>a. priority_at b a \<le> sint m) as) n_fds 0 fds)"
proof -
  let ?xs = "filter (\<lambda>a. priority_at b a \<le> sint m) as"
  let ?ys = "filter (\<lambda>a. sint m < priority_at b a) as"
  have split: "as = ?xs @ ?ys"
    using sorted by (rule sorted_split)
  from holds have "path (recs b) rec_next (poll_records b) as None"
    by (simp add: holds_def)
  with split have path: "path (recs b) rec_next (poll_records b) (?xs @ ?ys) None"
    by simp
  have "length ?xs < 2 ^ 31"
    using length_filter_le room by (rule le_less_trans)
  then have room': "int 0 + int (length ?xs) < 2 ^ 31"
    by (simp add: of_nat_less_numeral_power_cancel_iff)
  have "query_loop (recs b) m n_fds (poll_records b) (int 0) fds =
     Some (int 0 + int (length ?xs), slots_from (recs b) ?xs n_fds 0 fds)"
    using path _ _ room' cap
  proof (rule query_loop_path)
    fix a r
    assume "a \<in> set ?xs" "recs b a = Some r"
    then show "sint (rec_priority r) \<le> sint m"
      by (simp add: priority_at_def)
  next
    fix a r
    assume first: "first_opt ?ys = Some a" and r: "recs b a = Some r"
    from first have "a \<in> set ?ys"
      by (cases ?ys) auto
    with r show "\<not> sint (rec_priority r) \<le> sint m"
      by (simp add: priority_at_def)
  qed
  then show ?thesis
    by simp
qed

text \<open>
  What both query functions compute on a store that holds a list sorted by priority, of
  fewer than \<open>2^31\<close> records, when the array has at least \<open>n_fds\<close> slots: the number of
  records whose priority is at most \<open>max_priority\<close>, whatever \<open>n_fds\<close> is, and the array
  \<open>slots_from\<close> describes. \<^verbatim>\<open>g_poll_context_query\<close> also clears \<^verbatim>\<open>poll_changed\<close>.
\<close>

lemma query_ready_prefix:
  assumes "holds b as" and "sorted (map (priority_at b) as)" and "length as < 2 ^ 31"
    and "holds l ls" and "sorted (map (priority_at l) ls)" and "length ls < 2 ^ 31"
    and "n_fds \<le> int (length fds)"
  shows
    "g_baseline_poller_query b max_priority fds n_fds =
       Some (int (length (filter (\<lambda>a. priority_at b a \<le> sint max_priority) as)),
             slots_from (recs b) (filter (\<lambda>a. priority_at b a \<le> sint max_priority) as) n_fds 0 fds) \<and>
     g_poll_context_query l max_priority fds n_fds =
       Some (int (length (filter (\<lambda>a. priority_at l a \<le> sint max_priority) ls)),
             slots_from (recs l) (filter (\<lambda>a. priority_at l a \<le> sint max_priority) ls) n_fds 0 fds,
             l\<lparr>poll_changed := False\<rparr>)"
  using query_loop_holds [OF assms(1,2,3,7), of max_priority]
    query_loop_holds [OF assms(4,5,6,7), of max_priority]
  by (simp add: g_baseline_poller_query_def g_poll_context_query_def)

text \<open>
  The store built by adding the priorities 5, 1, 3, 1 in this order, queried with
  \<open>max_priority = 3\<close>: the count is 3 and the slots hold the two records of priority 1 and
  the record of priority 3, in this order; with room for two, the count is still 3.
\<close>

lemma query_four:
  "holds baseline_four [1, 3, 2, 0] \<and> holds loop_four [1, 3, 2, 0] \<and>
   map (priority_at baseline_four) [1, 3, 2, 0] = [1, 1, 3, 5] \<and>
   g_baseline_poller_query baseline_four 3 [stale, stale, stale, stale] 4 =
     Some (3, [\<lparr>pollfd_fd = 11, pollfd_events = 1, pollfd_revents = 0\<rparr>,
               \<lparr>pollfd_fd = 13, pollfd_events = 1, pollfd_revents = 0\<rparr>,
               \<lparr>pollfd_fd = 12, pollfd_events = 1, pollfd_revents = 0\<rparr>, stale]) \<and>
   g_poll_context_query loop_four 3 [stale, stale, stale, stale] 2 =
     Some (3, [\<lparr>pollfd_fd = 11, pollfd_events = 1, pollfd_revents = 0\<rparr>,
               \<lparr>pollfd_fd = 13, pollfd_events = 1, pollfd_revents = 0\<rparr>, stale, stale],
           loop_four\<lparr>poll_changed := False\<rparr>)"
proof -
  have sorted: "sorted (map (priority_at baseline_four) [1, 3, 2, 0])"
    "sorted (map (priority_at loop_four) [1, 3, 2, 0])"
    by (simp_all only: priorities_four) simp_all
  have sel: "filter (\<lambda>a. priority_at baseline_four a \<le> sint (3 :: gint)) [1, 3, 2, 0] = [1, 3, 2]"
    "filter (\<lambda>a. priority_at loop_four a \<le> sint (3 :: gint)) [1, 3, 2, 0] = [1, 3, 2]"
    by (simp_all add: priority_at_def baseline_four_def loop_four_def four_cells_def)
  have slots:
    "slots_from (recs baseline_four) [1, 3, 2] 4 0 [stale, stale, stale, stale] =
       [\<lparr>pollfd_fd = 11, pollfd_events = 1, pollfd_revents = 0\<rparr>,
        \<lparr>pollfd_fd = 13, pollfd_events = 1, pollfd_revents = 0\<rparr>,
        \<lparr>pollfd_fd = 12, pollfd_events = 1, pollfd_revents = 0\<rparr>, stale]"
    "slots_from (recs loop_four) [1, 3, 2] 2 0 [stale, stale, stale, stale] =
       [\<lparr>pollfd_fd = 11, pollfd_events = 1, pollfd_revents = 0\<rparr>,
        \<lparr>pollfd_fd = 13, pollfd_events = 1, pollfd_revents = 0\<rparr>, stale, stale]"
    by (simp_all add: slots_from_def slot_for_def baseline_four_def loop_four_def four_cells_def
        upt_rec numeral_nat)
  have base: "g_baseline_poller_query baseline_four 3 [stale, stale, stale, stale] 4 =
      Some (3, [\<lparr>pollfd_fd = 11, pollfd_events = 1, pollfd_revents = 0\<rparr>,
               \<lparr>pollfd_fd = 13, pollfd_events = 1, pollfd_revents = 0\<rparr>,
               \<lparr>pollfd_fd = 12, pollfd_events = 1, pollfd_revents = 0\<rparr>, stale])"
    using query_ready_prefix [OF holds_four(1) sorted(1) _ holds_four(2) sorted(2), of 4
        "[stale, stale, stale, stale]" 3]
    unfolding sel unfolding slots by simp
  have loop: "g_poll_context_query loop_four 3 [stale, stale, stale, stale] 2 =
     Some (3, [\<lparr>pollfd_fd = 11, pollfd_events = 1, pollfd_revents = 0\<rparr>,
               \<lparr>pollfd_fd = 13, pollfd_events = 1, pollfd_revents = 0\<rparr>, stale, stale],
           loop_four\<lparr>poll_changed := False\<rparr>)"
    using query_ready_prefix [OF holds_four(1) sorted(1) _ holds_four(2) sorted(2), of 2
        "[stale, stale, stale, stale]" 3]
    unfolding sel unfolding slots by simp
  from base loop holds_four priorities_four(1) show ?thesis
    by simp
qed

text \<open>
  Where every record within the priority has events other than 0 and the array has room for
  all of them, the slots hold these records, one each and in the order of the list.
\<close>

lemma query_emits_records:
  assumes "holds b as" and "sorted (map (priority_at b) as)" and "length as < 2 ^ 31"
    and "n_fds \<le> int (length fds)"
    and "int (length (filter (\<lambda>a. priority_at b a \<le> sint max_priority) as)) \<le> n_fds"
    and "\<And>a. a \<in> set as \<Longrightarrow> events_at b a \<noteq> Some 0"
  shows "\<exists>fds'. g_baseline_poller_query b max_priority fds n_fds =
       Some (int (length (filter (\<lambda>a. priority_at b a \<le> sint max_priority) as)), fds') \<and>
     map Some (take (length (filter (\<lambda>a. priority_at b a \<le> sint max_priority) as)) fds') =
     map (\<lambda>a. map_option slot_for (recs b a))
       (filter (\<lambda>a. priority_at b a \<le> sint max_priority) as)"
proof -
  let ?sel = "filter (\<lambda>a. priority_at b a \<le> sint max_priority) as"
  let ?fds = "slots_from (recs b) ?sel n_fds 0 fds"
  have run: "g_baseline_poller_query b max_priority fds n_fds = Some (int (length ?sel), ?fds)"
    using query_loop_holds [OF assms(1,2,3,4), of max_priority]
    by (simp add: g_baseline_poller_query_def)
  have room: "length ?sel \<le> length fds"
    using assms(4,5) by linarith
  have "map Some (take (length ?sel) ?fds) = map (\<lambda>a. map_option slot_for (recs b a)) ?sel"
  proof (rule nth_equalityI)
    show "length (map Some (take (length ?sel) ?fds)) =
        length (map (\<lambda>a. map_option slot_for (recs b a)) ?sel)"
      using room by simp
    fix i
    assume "i < length (map Some (take (length ?sel) ?fds))"
    with room have i: "i < length ?sel" "i < length fds"
      by simp_all
    then have "?sel ! i \<in> set as"
      using nth_mem [of i ?sel] by auto
    with holds_live [OF assms(1)] assms(6) [of "?sel ! i"] obtain r where
      r: "recs b (?sel ! i) = Some r" "rec_events r \<noteq> 0"
      by (auto simp: events_at_def)
    from i assms(5) have "int i < n_fds"
      by linarith
    with i r show "map Some (take (length ?sel) ?fds) ! i =
        map (\<lambda>a. map_option slot_for (recs b a)) ?sel ! i"
      by (simp add: slots_from_nth)
  qed
  with run show ?thesis
    by blast
qed

text \<open>
  Claim C3, at an input where the code breaks it. A record is added with the events 0 and
  the priority 0, and the store is queried with \<open>max_priority = 0\<close> and an array of one slot.
  The record is within the priority, and the query counts it: it returns 1. But the three
  assignments to the slot are guarded by \<^verbatim>\<open>pollrec->events != 0\<close> and \<^verbatim>\<open>n_poll++\<close> is not, so
  nothing is written: the slot that the count makes part of the result holds what the
  memory held before, here a descriptor 99 with observed events, and not the record.
\<close>

lemma muted_reached: "baseline_adds [(10, 0, 0)] (g_baseline_poller_new idle_poll) = Some baseline_muted"
  by (simp add: baseline_muted_def muted_cells_def add_fd_unfold fun_eq_iff)

theorem query_counts_unwritten_slot:
  "baseline_adds [(10, 0, 0)] (g_baseline_poller_new idle_poll) = Some baseline_muted \<and>
   holds baseline_muted [0] \<and> priority_at baseline_muted 0 = 0 \<and>
   g_baseline_poller_query baseline_muted 0 [stale] 1 = Some (1, [stale]) \<and>
   stale \<noteq> slot_for \<lparr>rec_prev = None, rec_next = None, rec_fd = 10, rec_priority = 0, rec_events = 0\<rparr> \<and>
   pollfd_fd stale = 99 \<and> pollfd_revents stale = 4"
  by (simp add: baseline_muted_def muted_cells_def add_fd_unfold fun_eq_iff holds_def priority_at_def
      g_baseline_poller_query_def query_loop.simps stale_def slot_for_def)

section \<open>Properties of the epoll backend\<close>

subsection \<open>Adding a descriptor\<close>

lemma ensure_ready_size_fields [simp]:
  "fds_ready (g_epoll_context_ensure_ready_size b n) = fds_ready b"
  "n_compat_fds (g_epoll_context_ensure_ready_size b n) = n_compat_fds b"
  "epoll_n_poll_records (g_epoll_context_ensure_ready_size b n) = epoll_n_poll_records b"
  "epoll_fd (g_epoll_context_ensure_ready_size b n) = epoll_fd b"
  "fds_ready_size (g_epoll_context_ensure_ready_size b n) = max n (fds_ready_size b)"
  by (simp_all add: g_epoll_context_ensure_ready_size_def)

lemma compat_entries_append:
  assumes "n_compat_fds b + 1 \<noteq> 0"
  shows "compat_entries (b\<lparr>fds_ready := (fds_ready b)(unat (n_compat_fds b) := p),
                           n_compat_fds := n_compat_fds b + 1\<rparr>) =
         compat_entries b @ [p]"
proof -
  from assms have "unat (n_compat_fds b + 1) = Suc (unat (n_compat_fds b))"
    using unatSuc [of "n_compat_fds b"] by (simp add: add.commute)
  then show ?thesis
    by (simp add: compat_entries_def)
qed

lemma compat_entries_ensure [simp]:
  "compat_entries (g_epoll_context_ensure_ready_size b n) = compat_entries b"
  by (simp add: compat_entries_def)

text \<open>
  Claim C4, as amended. Let \<open>(r, e)\<close> be what \<^verbatim>\<open>epoll_ctl\<close> returns and the \<^verbatim>\<open>errno\<close> it leaves when
  \<^verbatim>\<open>add_fd\<close> asks it to add the descriptor, and let the array revision hold fewer than
  \<open>2^32 - 1\<close> entries in its compatibility set. If the kernel refuses with \<^verbatim>\<open>EPERM\<close>, the
  array revision appends the descriptor with its events to the compatibility set and the hash
  revision enters it in the table; the counter of kernel-managed descriptors stays, no
  warning is logged and the result is \<^verbatim>\<open>TRUE\<close>. If it refuses for another reason, a warning
  is logged, the result is \<^verbatim>\<open>FALSE\<close> and the backend is as it was. If it accepts, the
  counter goes up by one and the result is \<^verbatim>\<open>TRUE\<close>.
\<close>

theorem add_fd_falls_back_on_eperm:
  assumes "epoll_ctl env (epoll_fd b) EPOLL_CTL_ADD fd
             \<lparr>epoll_events = g_io_condition_to_epoll_events (headers env) events,
              epoll_data_fd = fd\<rparr> = (r, e)"
    and "epoll_ctl env (hash_epoll_fd h) EPOLL_CTL_ADD fd
             \<lparr>epoll_events = g_io_condition_to_epoll_events (headers env) events,
              epoll_data_fd = fd\<rparr> = (r, e)"
    and "n_compat_fds b + 1 \<noteq> 0"
  shows
    "(r \<noteq> 0 \<and> e = EPERM \<longrightarrow>
        (\<exists>b' log. g_epoll_context_add_fd env b fd events priority = (True, b', log) \<and>
           compat_entries b' =
             compat_entries b @ [\<lparr>pollfd_fd = fd, pollfd_events = events, pollfd_revents = 0\<rparr>] \<and>
           epoll_n_poll_records b' = epoll_n_poll_records b \<and> warnings log = []) \<and>
        (\<exists>h' log. g_epoll_context_add_fd_hash env h fd events priority = (True, h', log) \<and>
           map_of (compat_fds h') = (map_of (compat_fds h))(fd \<mapsto> events) \<and>
           hash_n_poll_records h' = hash_n_poll_records h \<and> warnings log = [])) \<and>
     (r \<noteq> 0 \<and> e \<noteq> EPERM \<longrightarrow>
        (\<exists>log. g_epoll_context_add_fd env b fd events priority = (False, b, log) \<and>
           warnings log = [EpollWarning]) \<and>
        (\<exists>log. g_epoll_context_add_fd_hash env h fd events priority = (False, h, log) \<and>
           warnings log = [EpollWarning])) \<and>
     (r = 0 \<longrightarrow>
        (\<exists>log. g_epoll_context_add_fd env b fd events priority =
           (True, b\<lparr>epoll_n_poll_records := epoll_n_poll_records b + 1\<rparr>, log) \<and>
           warnings log = []) \<and>
        (\<exists>log. g_epoll_context_add_fd_hash env h fd events priority =
           (True, h\<lparr>hash_n_poll_records := hash_n_poll_records h + 1\<rparr>, log) \<and>
           warnings log = []))"
proof (intro conjI impI)
  assume "r \<noteq> 0 \<and> e = EPERM"
  then show "\<exists>b' log. g_epoll_context_add_fd env b fd events priority = (True, b', log) \<and>
           compat_entries b' =
             compat_entries b @ [\<lparr>pollfd_fd = fd, pollfd_events = events, pollfd_revents = 0\<rparr>] \<and>
           epoll_n_poll_records b' = epoll_n_poll_records b \<and> warnings log = []"
    using assms(1) compat_entries_append [OF assms(3)]
      compat_entries_append [of "g_epoll_context_ensure_ready_size b (unat (n_compat_fds b + 1))"]
    by (simp add: g_epoll_context_add_fd_def warnings_def assms(3) Let_def)
next
  assume "r \<noteq> 0 \<and> e = EPERM"
  then show "\<exists>h' log. g_epoll_context_add_fd_hash env h fd events priority = (True, h', log) \<and>
           map_of (compat_fds h') = (map_of (compat_fds h))(fd \<mapsto> events) \<and>
           hash_n_poll_records h' = hash_n_poll_records h \<and> warnings log = []"
    using assms(2) by (simp add: g_epoll_context_add_fd_hash_def warnings_def update_conv')
next
  assume "r \<noteq> 0 \<and> e \<noteq> EPERM"
  then show "\<exists>log. g_epoll_context_add_fd env b fd events priority = (False, b, log) \<and>
           warnings log = [EpollWarning]"
    using assms(1) by (simp add: g_epoll_context_add_fd_def warnings_def)
next
  assume "r \<noteq> 0 \<and> e \<noteq> EPERM"
  then show "\<exists>log. g_epoll_context_add_fd_hash env h fd events priority = (False, h, log) \<and>
           warnings log = [EpollWarning]"
    using assms(2) by (simp add: g_epoll_context_add_fd_hash_def warnings_def)
next
  assume "r = 0"
  then show "\<exists>log. g_epoll_context_add_fd env b fd events priority =
           (True, b\<lparr>epoll_n_poll_records := epoll_n_poll_records b + 1\<rparr>, log) \<and>
           warnings log = []"
    using assms(1) by (simp add: g_epoll_context_add_fd_def warnings_def)
next
  assume "r = 0"
  then show "\<exists>log. g_epoll_context_add_fd_hash env h fd events priority =
           (True, h\<lparr>hash_n_poll_records := hash_n_poll_records h + 1\<rparr>, log) \<and>
           warnings log = []"
    using assms(2) by (simp add: g_epoll_context_add_fd_hash_def warnings_def)
qed

theorem add_fd_falls_back_on_eperm_witness:
  "(\<exists>b' log. g_epoll_context_add_fd (example_env G_LITTLE_ENDIAN EINTR) new_backend 5 1 0 =
        (True, b', log) \<and>
      compat_entries b' = [\<lparr>pollfd_fd = 5, pollfd_events = 1, pollfd_revents = 0\<rparr>] \<and>
      epoll_n_poll_records b' = 0 \<and> warnings log = []) \<and>
   (\<exists>h' log. g_epoll_context_add_fd_hash (example_env G_LITTLE_ENDIAN EINTR) new_backend_hash 5 1 0 =
        (True, h', log) \<and>
      map_of (compat_fds h') = [5 \<mapsto> 1] \<and> hash_n_poll_records h' = 0 \<and> warnings log = []) \<and>
   (\<exists>log. g_epoll_context_add_fd (example_env G_LITTLE_ENDIAN EINTR) new_backend 6 1 0 =
        (False, new_backend, log) \<and> warnings log = [EpollWarning]) \<and>
   (\<exists>log. g_epoll_context_add_fd_hash (example_env G_LITTLE_ENDIAN EINTR) new_backend_hash 6 1 0 =
        (False, new_backend_hash, log) \<and> warnings log = [EpollWarning]) \<and>
   (\<exists>log. g_epoll_context_add_fd (example_env G_LITTLE_ENDIAN EINTR) new_backend 8 1 0 =
        (True, new_backend\<lparr>epoll_n_poll_records := 1\<rparr>, log) \<and> warnings log = []) \<and>
   (\<exists>log. g_epoll_context_add_fd_hash (example_env G_LITTLE_ENDIAN EINTR) new_backend_hash 8 1 0 =
        (True, new_backend_hash\<lparr>hash_n_poll_records := 1\<rparr>, log) \<and> warnings log = [])"
proof -
  let ?env = "example_env G_LITTLE_ENDIAN EINTR"
  have ctl: "epoll_ctl ?env epfd EPOLL_CTL_ADD 5 ev = (- 1, EPERM)"
    "epoll_ctl ?env epfd EPOLL_CTL_ADD 6 ev = (- 1, EBADF)"
    "epoll_ctl ?env epfd EPOLL_CTL_ADD 8 ev = (0, 0)" for epfd ev
    by (simp_all add: example_env_def refusing_ctl_def)
  have room: "n_compat_fds new_backend + 1 \<noteq> 0"
    by (simp add: new_backend_def)
  have differ: "EBADF \<noteq> EPERM"
    by (simp add: EBADF_def EPERM_def)
  have fresh: "compat_entries new_backend = []" "epoll_n_poll_records new_backend = 0"
    "compat_fds new_backend_hash = []" "hash_n_poll_records new_backend_hash = 0"
    by (simp_all add: compat_entries_def new_backend_def new_backend_hash_def)
  from add_fd_falls_back_on_eperm [where b = new_backend and h = new_backend_hash and events = 1
      and priority = 0, OF ctl(1) ctl(1) room]
  have refused:
    "\<exists>b' log. g_epoll_context_add_fd ?env new_backend 5 1 0 = (True, b', log) \<and>
      compat_entries b' = [\<lparr>pollfd_fd = 5, pollfd_events = 1, pollfd_revents = 0\<rparr>] \<and>
      epoll_n_poll_records b' = 0 \<and> warnings log = []"
    "\<exists>h' log. g_epoll_context_add_fd_hash ?env new_backend_hash 5 1 0 = (True, h', log) \<and>
      map_of (compat_fds h') = [5 \<mapsto> 1] \<and> hash_n_poll_records h' = 0 \<and> warnings log = []"
    by (simp_all add: fresh)
  from add_fd_falls_back_on_eperm [where b = new_backend and h = new_backend_hash and events = 1
      and priority = 0, OF ctl(2) ctl(2) room]
  have failed:
    "\<exists>log. g_epoll_context_add_fd ?env new_backend 6 1 0 = (False, new_backend, log) \<and>
       warnings log = [EpollWarning]"
    "\<exists>log. g_epoll_context_add_fd_hash ?env new_backend_hash 6 1 0 =
       (False, new_backend_hash, log) \<and> warnings log = [EpollWarning]"
    using differ by simp_all
  from add_fd_falls_back_on_eperm [where b = new_backend and h = new_backend_hash and events = 1
      and priority = 0, OF ctl(3) ctl(3) room]
  have added:
    "\<exists>log. g_epoll_context_add_fd ?env new_backend 8 1 0 =
        (True, new_backend\<lparr>epoll_n_poll_records := 1\<rparr>, log) \<and> warnings log = []"
    "\<exists>log. g_epoll_context_add_fd_hash ?env new_backend_hash 8 1 0 =
        (True, new_backend_hash\<lparr>hash_n_poll_records := 1\<rparr>, log) \<and> warnings log = []"
    by (simp_all add: fresh)
  from refused failed added show ?thesis
    by (intro conjI)
qed

text \<open>
  The bound on the compatibility set of the array revision is needed. \<^verbatim>\<open>n_compat_fds\<close> is a
  \<^verbatim>\<open>guint\<close>: after \<open>2^32 - 1\<close> refused descriptors the next \<^verbatim>\<open>i_next + 1\<close> is 0, and the
  call that should add one more entry returns \<^verbatim>\<open>TRUE\<close> and leaves the set empty.
\<close>

lemma epoll_adds_refused:
  "n_compat_fds (epoll_adds (example_env bo e) (replicate k (5, events)) b) =
   n_compat_fds b + of_nat k"
proof (induction k arbitrary: b)
  case 0
  show ?case by simp
next
  case (Suc k)
  have "n_compat_fds (fst (snd (g_epoll_context_add_fd (example_env bo e) b 5 events 0))) =
      n_compat_fds b + 1"
    by (simp add: g_epoll_context_add_fd_def example_env_def refusing_ctl_def Let_def)
  with Suc.IH [of "fst (snd (g_epoll_context_add_fd (example_env bo e) b 5 events 0))"]
  show ?case
    by (simp add: algebra_simps)
qed

lemma full_of_files_count: "n_compat_fds full_of_files = 4294967295"
  unfolding full_of_files_def epoll_adds_refused by (simp add: new_backend_def)

theorem add_fd_wraps_counterexample:
  "length (compat_entries full_of_files) = 4294967295 \<and>
   epoll_ctl (example_env G_LITTLE_ENDIAN EINTR) (epoll_fd full_of_files) EPOLL_CTL_ADD 5
     \<lparr>epoll_events = g_io_condition_to_epoll_events (headers (example_env G_LITTLE_ENDIAN EINTR)) 1,
      epoll_data_fd = 5\<rparr> = (- 1, EPERM) \<and>
   fst (g_epoll_context_add_fd (example_env G_LITTLE_ENDIAN EINTR) full_of_files 5 1 0) = True \<and>
   compat_entries
     (fst (snd (g_epoll_context_add_fd (example_env G_LITTLE_ENDIAN EINTR) full_of_files 5 1 0))) = [] \<and>
   warnings (snd (snd (g_epoll_context_add_fd (example_env G_LITTLE_ENDIAN EINTR) full_of_files 5 1 0))) = []"
proof -
  have ctl: "epoll_ctl (example_env G_LITTLE_ENDIAN EINTR) epfd EPOLL_CTL_ADD 5 ev = (- 1, EPERM)"
    for epfd ev
    by (simp add: example_env_def refusing_ctl_def)
  have "length (compat_entries full_of_files) = 4294967295"
    by (simp add: compat_entries_def full_of_files_count)
  moreover have "fst (g_epoll_context_add_fd (example_env G_LITTLE_ENDIAN EINTR) full_of_files 5 1 0) = True"
    by (simp add: g_epoll_context_add_fd_def ctl Let_def)
  moreover have "compat_entries
     (fst (snd (g_epoll_context_add_fd (example_env G_LITTLE_ENDIAN EINTR) full_of_files 5 1 0))) = []"
    by (simp add: g_epoll_context_add_fd_def ctl Let_def compat_entries_def full_of_files_count)
  moreover have "warnings (snd (snd (g_epoll_context_add_fd (example_env G_LITTLE_ENDIAN EINTR)
      full_of_files 5 1 0))) = []"
    by (simp add: g_epoll_context_add_fd_def ctl Let_def warnings_def)
  ultimately show ?thesis
    using ctl by simp
qed

subsection \<open>Changing and removing a descriptor of the compatibility set\<close>

lemma upt_small: "[0..<2] = [0, 1]" "[0..<4] = [0, 1, 2, 3]" "[0..<8] = [0, 1, 2, 3, 4, 5, 6, 7]"
  "[8..<16] = [8, 9, 10, 11, 12, 13, 14, 15]"
  by (simp_all add: upt_rec)


lemma two_files_index: "compat_index two_files 5 = Some 0" "compat_index two_files_epoller 5 = Some 0"
  by (simp_all add: compat_index_def two_files_def new_backend_def two_files_epoller_def
      new_epoller_def upt_small)

lemma two_files_bytes:
  "GPollFD_bytes bo (fds_ready two_files 0) =
     (if bo = G_BIG_ENDIAN then [0, 0, 0, 5, 0, 1, 0, 0] else [5, 0, 0, 0, 1, 0, 0, 0])"
  "GPollFD_bytes bo (fds_ready two_files (Suc 0)) =
     (if bo = G_BIG_ENDIAN then [0, 0, 0, 7, 0, 4, 0, 0] else [7, 0, 0, 0, 4, 0, 0, 0])"
  by (simp_all add: GPollFD_bytes_def word_bytes_def two_files_def new_backend_def upt_small)

lemma mv_le: "memmove_GPollFD G_LITTLE_ENDIAN (fds_ready two_files) 0 (Suc 0) (Suc 0) 0 =
   \<lparr>pollfd_fd = 7, pollfd_events = 1, pollfd_revents = 0\<rparr>"
  by (simp add: memmove_GPollFD_def array_byte_def two_files_bytes upt_small
      bytes_GPollFD_def bytes_word_def)

lemma mv_be: "memmove_GPollFD G_BIG_ENDIAN (fds_ready two_files) 0 (Suc 0) (Suc 0) 0 =
   \<lparr>pollfd_fd = 5, pollfd_events = 1, pollfd_revents = 0\<rparr>"
  by (simp add: memmove_GPollFD_def array_byte_def two_files_bytes upt_small
      bytes_GPollFD_def bytes_word_def)

lemma bytes_word_bytes32: "bytes_word bo (word_bytes bo 4 (w :: 32 word)) = w"
  apply (rule bit_word_eqI)
  apply (auto simp: bit_simps word_bytes_def bytes_word_def upt_small)
  apply (case_tac "n < 24"; simp)
  done

lemma bytes_word_bytes16: "bytes_word bo (word_bytes bo 2 (w :: 16 word)) = w"
  by (rule bit_word_eqI) (auto simp: bit_simps word_bytes_def bytes_word_def upt_small)

lemma length_word_bytes [simp]: "length (word_bytes bo n w) = n"
  by (simp add: word_bytes_def Let_def)

lemma bytes_GPollFD_bytes: "bytes_GPollFD bo (GPollFD_bytes bo p) = p"
  by (simp add: bytes_GPollFD_def GPollFD_bytes_def bytes_word_bytes32 bytes_word_bytes16)

lemma length_GPollFD_bytes [simp]: "length (GPollFD_bytes bo p) = 8"
  by (simp add: GPollFD_bytes_def)

lemma memmove_nothing: "memmove_GPollFD bo fds dest src 0 = fds"
proof
  fix k
  have bytes: "map (array_byte bo fds) [8 * k..<8 * k + 8] = GPollFD_bytes bo (fds k)"
    by (rule nth_equalityI) (simp_all add: array_byte_def)
  have "(\<lambda>j. if 8 * dest \<le> j \<and> j < 8 * dest + 0
             then array_byte bo fds (8 * src + (j - 8 * dest))
             else array_byte bo fds j) = array_byte bo fds"
    by (auto simp: fun_eq_iff)
  then have "memmove_GPollFD bo fds dest src 0 k =
      bytes_GPollFD bo (map (array_byte bo fds) [8 * k..<8 * k + 8])"
    unfolding memmove_GPollFD_def by (rule arg_cong [where f = "\<lambda>f. bytes_GPollFD bo (map f [8 * k..<8 * k + 8])"])
  then show "memmove_GPollFD bo fds dest src 0 k = fds k"
    by (simp only: bytes bytes_GPollFD_bytes)
qed

lemma compat_index_Some:
  assumes "compat_index b fd = Some i"
  shows "i < unat (n_compat_fds b)" "pollfd_fd (fds_ready b i) = fd"
    "\<And>j. j < i \<Longrightarrow> pollfd_fd (fds_ready b j) \<noteq> fd"
  using assms by (auto simp: compat_index_def find_Some_iff)

lemma compat_index_None:
  "compat_index b fd = None \<longleftrightarrow> fd \<notin> pollfd_fd ` set (compat_entries b)"
  by (auto simp: compat_index_def compat_entries_def find_None_iff)

lemma compat_entries_modified:
  assumes "i < unat (n_compat_fds b)"
  shows "compat_entries (b\<lparr>fds_ready := (fds_ready b)(i := p)\<rparr>) = (compat_entries b)[i := p]"
  using assms by (auto simp: compat_entries_def intro!: nth_equalityI)

text \<open>
  In the array revisions \<^verbatim>\<open>modify_fd\<close> changes the events of the first entry of the
  compatibility set with the descriptor, and nothing else; the kernel is not called.
\<close>

lemma modify_fd_compat:
  assumes "compat_index b fd = Some i"
  shows "\<exists>b'. g_epoll_context_modify_fd env b fd events priority = (True, b', []) \<and>
     compat_entries b' = (compat_entries b)[i := (compat_entries b ! i)\<lparr>pollfd_events := events\<rparr>] \<and>
     epoll_n_poll_records b' = epoll_n_poll_records b \<and> n_compat_fds b' = n_compat_fds b"
proof -
  from assms have i: "i < unat (n_compat_fds b)"
    by (rule compat_index_Some)
  then have "compat_entries b ! i = fds_ready b i"
    by (simp add: compat_entries_def)
  with assms compat_entries_modified [OF i] show ?thesis
    by (simp add: g_epoll_context_modify_fd_def)
qed

lemma epoller_modify_fd_compat:
  assumes "compat_index b fd = Some i"
  shows "\<exists>b'. g_epoller_modify_fd env b fd events priority = (b', []) \<and>
     compat_entries b' = (compat_entries b)[i := (compat_entries b ! i)\<lparr>pollfd_events := events\<rparr>] \<and>
     epoll_n_poll_records b' = epoll_n_poll_records b \<and> n_compat_fds b' = n_compat_fds b"
proof -
  from assms have i: "i < unat (n_compat_fds b)"
    by (rule compat_index_Some)
  then have "compat_entries b ! i = fds_ready b i"
    by (simp add: compat_entries_def)
  with assms compat_entries_modified [OF i] show ?thesis
    by (simp add: g_epoller_modify_fd_def)
qed

text \<open>
  In the array revisions \<^verbatim>\<open>remove_fd\<close> does erase the entry when it is the last one of the
  compatibility set: no byte is to be moved then.
\<close>

lemma remove_fd_last_compat:
  assumes "compat_index b fd = Some i" and "Suc i = unat (n_compat_fds b)"
  shows "\<exists>b'. g_epoll_context_remove_fd env b fd = (True, b', []) \<and>
     compat_entries b' = butlast (compat_entries b) \<and>
     epoll_n_poll_records b' = epoll_n_poll_records b"
proof -
  have "(of_nat (unat (n_compat_fds b)) :: guint) = n_compat_fds b"
    by simp
  then have "n_compat_fds b = 1 + of_nat i"
    by (simp flip: assms(2))
  then have none: "unat (n_compat_fds b - 1 - of_nat i) = 0"
    by simp
  from assms(2) have "n_compat_fds b \<noteq> 0"
    by (cases "n_compat_fds b = 0") simp_all
  then have "unat (n_compat_fds b - 1) = unat (n_compat_fds b) - 1"
    by (rule unat_minus_one)
  then have less: "unat (n_compat_fds b - 1) = i"
    by (simp flip: assms(2))
  have "g_epoll_context_remove_fd env b fd =
      (True, b\<lparr>fds_ready := fds_ready b, n_compat_fds := n_compat_fds b - 1\<rparr>, [])"
    by (simp add: g_epoll_context_remove_fd_def assms(1) none memmove_nothing)
  moreover have "compat_entries (b\<lparr>fds_ready := fds_ready b, n_compat_fds := n_compat_fds b - 1\<rparr>) =
      butlast (compat_entries b)"
    by (simp add: compat_entries_def less butlast_conv_take take_map flip: assms(2))
  ultimately show ?thesis
    by simp
qed

text \<open>
  In the hash revision both functions do what they should for a descriptor of the
  compatibility set: the entry changes or goes, every other entry stays, the counter stays,
  and the kernel is not called.
\<close>

lemma modify_fd_hash_compat:
  assumes "map_of (compat_fds h) fd \<noteq> None"
  shows "\<exists>h'. g_epoll_context_modify_fd_hash env h fd events priority =
       (True, h', [LockEpoll, UnlockEpoll]) \<and>
     map_of (compat_fds h') = (map_of (compat_fds h))(fd \<mapsto> events) \<and>
     hash_n_poll_records h' = hash_n_poll_records h"
  using assms
  by (simp add: g_epoll_context_modify_fd_hash_def g_hash_table_contains_def update_conv')

lemma remove_fd_hash_compat:
  assumes "map_of (compat_fds h) fd \<noteq> None"
  shows "\<exists>h'. g_epoll_context_remove_fd_hash env h fd = (True, h', [LockEpoll, UnlockEpoll]) \<and>
     map_of (compat_fds h') = (map_of (compat_fds h))(fd := None) \<and>
     hash_n_poll_records h' = hash_n_poll_records h"
  using assms
  by (simp add: g_epoll_context_remove_fd_hash_def g_hash_table_contains_def delete_conv')

lemma two_files_reached:
  "(case g_epoll_context_add_fd (example_env bo e) new_backend 5 1 0 of
      (ok, b, log) \<Rightarrow> fst (snd (g_epoll_context_add_fd (example_env bo e) b 7 4 0))) = two_files"
  "(case g_epoller_add_fd (example_env bo e) new_epoller 5 1 0 of
      (b, log) \<Rightarrow> fst (g_epoller_add_fd (example_env bo e) b 7 4 0)) = two_files_epoller"
  "(case g_epoll_context_add_fd_hash (example_env bo e) new_backend_hash 5 1 0 of
      (ok, b, log) \<Rightarrow> fst (snd (g_epoll_context_add_fd_hash (example_env bo e) b 7 4 0))) =
   two_files_hash"
  by (simp_all add: g_epoll_context_add_fd_def g_epoller_add_fd_def g_epoll_context_add_fd_hash_def
      example_env_def refusing_ctl_def new_backend_def new_epoller_def new_backend_hash_def
      two_files_def two_files_epoller_def two_files_hash_def
      g_epoll_context_ensure_ready_size_def g_epoller_ensure_ready_size_def Let_def EPERM_def
      fun_eq_iff)

lemma two_files_entries:
  "compat_entries two_files =
     [\<lparr>pollfd_fd = 5, pollfd_events = 1, pollfd_revents = 0\<rparr>,
      \<lparr>pollfd_fd = 7, pollfd_events = 4, pollfd_revents = 0\<rparr>]"
  "compat_entries two_files_epoller =
     [\<lparr>pollfd_fd = 5, pollfd_events = 1, pollfd_revents = 0\<rparr>,
      \<lparr>pollfd_fd = 7, pollfd_events = 4, pollfd_revents = 0\<rparr>]"
  by (simp_all add: compat_entries_def two_files_def new_backend_def two_files_epoller_def
      new_epoller_def upt_small)

lemma two_files_same_array: "fds_ready two_files_epoller = fds_ready two_files"
  by (simp add: two_files_def two_files_epoller_def new_backend_def new_epoller_def)

text \<open>
  Claim C5, at an input where the array revisions break it. The compatibility set holds the
  descriptor 5 with the events 1 and then the descriptor 7 with the events 4, and the
  descriptor 5 is removed. \<^verbatim>\<open>memmove\<close> is asked to move one byte, not the eight of the
  entry behind. On a little-endian machine the entry left has the descriptor 7 and the events
  1, those of the entry removed; on a big-endian machine the entry left is the one that was
  to go, and the descriptor 7 is lost. Both functions report success and call no kernel
  function. The hash revision leaves the descriptor 7 with its events 4.
\<close>

theorem compat_remove_moves_bytes:
  "compat_entries two_files =
     [\<lparr>pollfd_fd = 5, pollfd_events = 1, pollfd_revents = 0\<rparr>,
      \<lparr>pollfd_fd = 7, pollfd_events = 4, pollfd_revents = 0\<rparr>] \<and>
   (case g_epoll_context_remove_fd (example_env G_LITTLE_ENDIAN EINTR) two_files 5 of
      (ok, b, log) \<Rightarrow> (ok, compat_entries b, log)) =
     (True, [\<lparr>pollfd_fd = 7, pollfd_events = 1, pollfd_revents = 0\<rparr>], []) \<and>
   (case g_epoll_context_remove_fd (example_env G_BIG_ENDIAN EINTR) two_files 5 of
      (ok, b, log) \<Rightarrow> (ok, compat_entries b, log)) =
     (True, [\<lparr>pollfd_fd = 5, pollfd_events = 1, pollfd_revents = 0\<rparr>], []) \<and>
   (case g_epoller_remove_fd (example_env G_LITTLE_ENDIAN EINTR) two_files_epoller 5 of
      (b, log) \<Rightarrow> (compat_entries b, log)) =
     ([\<lparr>pollfd_fd = 7, pollfd_events = 1, pollfd_revents = 0\<rparr>], []) \<and>
   (case g_epoller_remove_fd (example_env G_BIG_ENDIAN EINTR) two_files_epoller 5 of
      (b, log) \<Rightarrow> (compat_entries b, log)) =
     ([\<lparr>pollfd_fd = 5, pollfd_events = 1, pollfd_revents = 0\<rparr>], []) \<and>
   (case g_epoll_context_remove_fd_hash (example_env G_LITTLE_ENDIAN EINTR) two_files_hash 5 of
      (ok, b, log) \<Rightarrow> (ok, compat_fds b, log)) =
     (True, [(7, 4)], [LockEpoll, UnlockEpoll])"
proof -
  have n: "unat (n_compat_fds two_files - 1 - of_nat 0) = 1"
    "unat (n_compat_fds two_files_epoller - 1 - of_nat 0) = 1"
    "unat (n_compat_fds two_files - 1) = 1" "unat (n_compat_fds two_files_epoller - 1) = 1"
    by (simp_all add: two_files_def two_files_epoller_def)
  have "machine (example_env bo e) = bo" for bo e
    by (simp add: example_env_def)
  then show ?thesis
    using two_files_entries(1)
    by (simp add: g_epoll_context_remove_fd_def g_epoller_remove_fd_def two_files_index n
        compat_entries_def mv_le mv_be two_files_same_array
        g_epoll_context_remove_fd_hash_def g_hash_table_contains_def two_files_hash_def
        new_backend_hash_def)
qed

subsection \<open>A wait that fails\<close>

lemma ensure_hash_fields [simp]:
  "hash_context (g_epoll_context_ensure_ready_size_hash b n) = hash_context b"
  "hash_fds_ready (g_epoll_context_ensure_ready_size_hash b n) = hash_fds_ready b"
  "hash_epoll_output (g_epoll_context_ensure_ready_size_hash b n) = hash_epoll_output b"
  "compat_fds (g_epoll_context_ensure_ready_size_hash b n) = compat_fds b"
  "hash_n_poll_records (g_epoll_context_ensure_ready_size_hash b n) = hash_n_poll_records b"
  "hash_epoll_fd (g_epoll_context_ensure_ready_size_hash b n) = hash_epoll_fd b"
  by (simp_all add: g_epoll_context_ensure_ready_size_hash_def)







lemma collect_ready_env [simp]:
  "collect_ready (env\<lparr>epoll_wait := w\<rparr>) h n k = collect_ready env h n k"
  by (simp add: collect_ready_def)

lemma collect_ready_context [simp]: "hash_context (collect_ready env h n k) = hash_context h"
  by (simp add: collect_ready_def)



subsection \<open>A polling call that fails\<close>

lemma holds_cached_update [simp]:
  "holds (l\<lparr>loop_cached_poll_array := x\<rparr>) as = holds l as"
  "holds (l\<lparr>loop_cached_poll_array_size := y\<rparr>) as = holds l as"
  "priority_at (l\<lparr>loop_cached_poll_array := x\<rparr>) = priority_at l"
  "priority_at (l\<lparr>loop_cached_poll_array_size := y\<rparr>) = priority_at l"
  by (simp_all add: holds_def priority_at_def fun_eq_iff)

lemma array_of_simps [simp]:
  "array_of None = []" "array_of (Some a) = a"
  by (simp_all add: array_of_def)

lemma written_to_simps [simp]:
  "written_to None fds = None" "written_to (Some a) fds = Some fds"
  by (simp_all add: written_to_def)










end
